theory Spec2Isabelle
  imports Main
begin

section \<open>Python values shared by the three modules\<close>

text \<open>
  Exceptions are values.  Only the classes the modelled code can raise are listed;
  \<open>Exception\<close> carries the message of a bare \<^verbatim>\<open>raise Exception("...")\<close>, and
  \<open>ClientError\<close> stands for whatever the object-store client raises when a request fails.
\<close>

datatype pyerror =
    IndexError
  | KeyError
  | TypeError
  | ValueError
  | ZeroDivisionError
  | NotImplementedError
  | AssertionError
  | UnboundLocalError string
  | Exception string
  | ClientError string

text \<open>Python's \<^verbatim>\<open>xs[i]\<close>: a negative index counts from the end, out of range raises.\<close>

definition py_getitem :: "'a list \<Rightarrow> int \<Rightarrow> pyerror + 'a" where
  "py_getitem xs i =
     (if 0 \<le> i \<and> i < int (length xs) then Inr (xs ! nat i)
      else if i < 0 \<and> - i \<le> int (length xs) then Inr (xs ! nat (int (length xs) + i))
      else Inl IndexError)"

text \<open>\<^verbatim>\<open>str(n)\<close> for an integer, as \<^verbatim>\<open>"{0}".format(n)\<close> prints it.\<close>

definition digit_char :: "nat \<Rightarrow> char" where
  "digit_char d = ''0123456789'' ! d"

function str_nat :: "nat \<Rightarrow> string" where
  "str_nat n = (if n < 10 then [digit_char n] else str_nat (n div 10) @ [digit_char (n mod 10)])"
  by pat_completeness auto
termination
  by (relation "measure (\<lambda>n. n)") auto

declare str_nat.simps [simp del]

definition str_int :: "int \<Rightarrow> string" where
  "str_int i = (if i < 0 then CHR ''-'' # str_nat (nat (- i)) else str_nat (nat i))"

text \<open>\<^verbatim>\<open>os.path.join(a, b)\<close> of posixpath, for two components.\<close>

definition os_path_join :: "string \<Rightarrow> string \<Rightarrow> string" where
  "os_path_join a b =
     (if b \<noteq> [] \<and> hd b = CHR ''/'' then b
      else if a = [] \<or> last a = CHR ''/'' then a @ b
      else a @ ''/'' @ b)"

text \<open>\<^verbatim>\<open>str(t)\<close> for a tuple of integers: \<^verbatim>\<open>()\<close>, \<^verbatim>\<open>(a,)\<close>, \<^verbatim>\<open>(a, b, c)\<close>.\<close>

fun str_items :: "int list \<Rightarrow> string" where
  "str_items [] = []"
| "str_items [a] = str_int a"
| "str_items (a # b # rest) = str_int a @ '', '' @ str_items (b # rest)"

definition str_tuple :: "int list \<Rightarrow> string" where
  "str_tuple t = (case t of [a] \<Rightarrow> ''('' @ str_int a @ '',)'' | _ \<Rightarrow> ''('' @ str_items t @ '')'')"

section \<open>matrix.py: block addressing of \<open>BigMatrix\<close>\<close>

text \<open>
  An \<^verbatim>\<open>ndarray\<close> is its shape and its items by index tuple; \<^verbatim>\<open>.T\<close> reverses the axes.
  Serialisation (\<^verbatim>\<open>np.save\<close>/\<^verbatim>\<open>np.load\<close>) and \<^verbatim>\<open>astype(dtype)\<close> are the identity on
  this view of a block.
\<close>

record 'a ndarray =
  nd_shape :: "int list"
  nd_item :: "int list \<Rightarrow> 'a"

definition nd_T :: "'a ndarray \<Rightarrow> 'a ndarray" where
  "nd_T b = \<lparr> nd_shape = rev (nd_shape b), nd_item = (\<lambda>idx. nd_item b (rev idx)) \<rparr>"

text \<open>
  The fields of a \<^verbatim>\<open>BigMatrix\<close> that addressing and block I/O read.  \<open>parent_fn\<close> is the
  lazy producer, called with the block index; \<open>lambdav\<close> is only read by
  \<^verbatim>\<open>BigSymmetricMatrix\<close>.
\<close>

record 'a bigmatrix =
  bucket :: string
  key_base :: string
  shape :: "int list"
  shard_sizes :: "int list"
  parent_fn :: "(int list \<Rightarrow> 'a ndarray) option"
  lambdav :: 'a

text \<open>
  \<^verbatim>\<open>__block_idx_to_real_idx__\<close>: the loop over \<^verbatim>\<open>range(len(self.shape))\<close>, with the two
  accumulators \<^verbatim>\<open>starts\<close> and \<^verbatim>\<open>ends\<close>; the only failures are the subscripts.
\<close>

fun real_idx_loop ::
  "int list \<Rightarrow> int list \<Rightarrow> int list \<Rightarrow> nat list \<Rightarrow> int list \<Rightarrow> int list
     \<Rightarrow> pyerror + (int list \<times> int list)" where
  "real_idx_loop shp ss block_idx [] starts ends = Inr (starts, ends)"
| "real_idx_loop shp ss block_idx (i # rest) starts ends =
     (case py_getitem block_idx (int i) of
        Inl e \<Rightarrow> Inl e
      | Inr b \<Rightarrow>
          (case py_getitem ss (int i) of
             Inl e \<Rightarrow> Inl e
           | Inr sz \<Rightarrow>
               (let start = b * sz;
                    stop = min (start + sz) (shp ! i)
                in real_idx_loop shp ss block_idx rest (starts @ [start]) (ends @ [stop]))))"

definition block_idx_to_real_idx :: "('a, 'm) bigmatrix_scheme \<Rightarrow> int list \<Rightarrow> pyerror + (int \<times> int) list" where
  "block_idx_to_real_idx m block_idx =
     (case real_idx_loop (shape m) (shard_sizes m) block_idx [0 ..< length (shape m)] [] [] of
        Inl e \<Rightarrow> Inl e
      | Inr (starts, ends) \<Rightarrow> Inr (zip starts ends))"

text \<open>\<^verbatim>\<open>__get_matrix_shard_key__\<close>: one \<^verbatim>\<open>"{0}_{1}_{2}_"\<close> per zipped axis, under \<open>key_base\<close>.\<close>

fun key_string_loop :: "((int \<times> int) \<times> int) list \<Rightarrow> string \<Rightarrow> string" where
  "key_string_loop [] key_string = key_string"
| "key_string_loop (((sidx, eidx), shard_size) # rest) key_string =
     key_string_loop rest
       (key_string @ str_int sidx @ ''_'' @ str_int eidx @ ''_'' @ str_int shard_size @ ''_'')"

definition get_matrix_shard_key :: "('a, 'm) bigmatrix_scheme \<Rightarrow> (int \<times> int) list \<Rightarrow> string" where
  "get_matrix_shard_key m real_idxs =
     os_path_join (key_base m) (key_string_loop (zip real_idxs (shard_sizes m)) [])"

definition shard_idx_to_key :: "('a, 'm) bigmatrix_scheme \<Rightarrow> int list \<Rightarrow> pyerror + string" where
  "shard_idx_to_key m block_idx =
     (case block_idx_to_real_idx m block_idx of
        Inl e \<Rightarrow> Inl e
      | Inr real_idxs \<Rightarrow> Inr (get_matrix_shard_key m real_idxs))"

text \<open>
  \<^verbatim>\<open>BigSymmetricMatrix._symmetrize_idx\<close>: \<^verbatim>\<open>np.all\<close> of a comparison of two integers
  is the comparison.
\<close>

definition symmetrize_idx :: "int list \<Rightarrow> pyerror + int list" where
  "symmetrize_idx block_idx =
     (case py_getitem block_idx 0 of
        Inl e \<Rightarrow> Inl e
      | Inr first \<Rightarrow>
          (case py_getitem block_idx (- 1) of
             Inl e \<Rightarrow> Inl e
           | Inr final \<Rightarrow> if first > final then Inr block_idx else Inr (rev block_idx)))"


section \<open>matrix.py: block I/O against the object store\<close>

text \<open>
  The object store as the code sees it: the objects by bucket and key, the outcomes
  scheduled for the coming \<^verbatim>\<open>get_object\<close> requests (\<open>Some e\<close>: the request raises
  \<open>e\<close>; \<open>None\<close> or an exhausted schedule: it is served), and the requests made so far.
\<close>

datatype s3op = OpExists string | OpGet string | OpPut string

record 'a s3 =
  objects :: "string \<times> string \<rightharpoonup> 'a ndarray"
  get_faults :: "pyerror option list"
  oplog :: "s3op list"

definition serve_get :: "string \<Rightarrow> string \<Rightarrow> 'a s3 \<Rightarrow> (pyerror + 'a ndarray) \<times> 'a s3" where
  "serve_get bkt k s =
     (case objects s (bkt, k) of
        None \<Rightarrow> (Inl (ClientError ''NoSuchKey''), s)
      | Some b \<Rightarrow> (Inr b, s))"

definition get_object :: "string \<Rightarrow> string \<Rightarrow> 'a s3 \<Rightarrow> (pyerror + 'a ndarray) \<times> 'a s3" where
  "get_object bkt k s =
     (let s1 = s\<lparr> oplog := oplog s @ [OpGet k] \<rparr> in
      case get_faults s1 of
        [] \<Rightarrow> serve_get bkt k s1
      | None # rest \<Rightarrow> serve_get bkt k (s1\<lparr> get_faults := rest \<rparr>)
      | Some e # rest \<Rightarrow> (Inl e, s1\<lparr> get_faults := rest \<rparr>))"

definition put_object :: "string \<Rightarrow> string \<Rightarrow> 'a ndarray \<Rightarrow> 'a s3 \<Rightarrow> 'a s3" where
  "put_object bkt k b s =
     s\<lparr> objects := (objects s)((bkt, k) \<mapsto> b), oplog := oplog s @ [OpPut k] \<rparr>"

text \<open>
  Modelled from the spec: \<^verbatim>\<open>key_exists_async\<close> is imported from \<^verbatim>\<open>matrix_utils\<close> and
  is not defined in the sources at hand; the spec has it "check existence in the object
  store".  It reports whether an object is stored under the key.
\<close>

definition key_exists_async :: "string \<Rightarrow> string \<Rightarrow> 'a s3 \<Rightarrow> bool \<times> 'a s3" where
  "key_exists_async bkt k s =
     (objects s (bkt, k) \<noteq> None, s\<lparr> oplog := oplog s @ [OpExists k] \<rparr>)"

text \<open>
  \<^verbatim>\<open>__s3_key_to_byte_io__\<close>: the loop \<^verbatim>\<open>while bio is None and n_tries <= max_n_tries\<close>.
  The handler is \<^verbatim>\<open>except Exception as e: raise\<close> followed by \<^verbatim>\<open>n_tries += 1\<close>: the
  exception leaves the function, and the increment after \<^verbatim>\<open>raise\<close> is never reached.
\<close>

definition max_n_tries :: int where
  "max_n_tries = 5"

function s3_read_loop ::
  "string \<Rightarrow> string \<Rightarrow> 'a ndarray option \<Rightarrow> int \<Rightarrow> 'a s3
     \<Rightarrow> (pyerror + 'a ndarray option) \<times> 'a s3" where
  "s3_read_loop bkt k bio n_tries s =
     (if bio = None \<and> n_tries \<le> max_n_tries then
        (case get_object bkt k s of
           (Inl e, s') \<Rightarrow> (Inl e, s')
         | (Inr matrix_bytes, s') \<Rightarrow> s3_read_loop bkt k (Some matrix_bytes) n_tries s')
      else (Inr bio, s))"
  by pat_completeness auto
termination
  by (relation "measure (\<lambda>(bkt, k, bio, n_tries, s). if bio = None then 1 else 0)") auto

declare s3_read_loop.simps [simp del]

definition s3_key_to_byte_io ::
  "('a, 'm) bigmatrix_scheme \<Rightarrow> string \<Rightarrow> 'a s3 \<Rightarrow> (pyerror + 'a ndarray) \<times> 'a s3" where
  "s3_key_to_byte_io m k s =
     (case s3_read_loop (bucket m) k None 0 s of
        (Inl e, s') \<Rightarrow> (Inl e, s')
      | (Inr None, s') \<Rightarrow> (Inl (Exception ''S3 Read Failed''), s')
      | (Inr (Some bio), s') \<Rightarrow> (Inr bio, s'))"

definition save_matrix_to_s3 ::
  "('a, 'm) bigmatrix_scheme \<Rightarrow> 'a ndarray \<Rightarrow> string \<Rightarrow> 'a s3 \<Rightarrow> (pyerror + unit) \<times> 'a s3" where
  "save_matrix_to_s3 m X out_key s = (Inr (), put_object (bucket m) out_key X s)"

text \<open>
  \<^verbatim>\<open>BigMatrix.get_block_async\<close>.  The message of the missing-key exception is the
  literal of the source: its placeholder is never filled in.
\<close>

definition get_block_async ::
  "('a, 'm) bigmatrix_scheme \<Rightarrow> int list \<Rightarrow> 'a s3 \<Rightarrow> (pyerror + 'a ndarray) \<times> 'a s3" where
  "get_block_async m block_idx s =
     (if length block_idx \<noteq> length (shape m)
      then (Inl (Exception ''Get block query does not match shape''), s)
      else
        (case shard_idx_to_key m block_idx of
           Inl e \<Rightarrow> (Inl e, s)
         | Inr k \<Rightarrow>
             (case key_exists_async (bucket m) k s of
                (exists, s1) \<Rightarrow>
                  (case (exists, parent_fn m) of
                     (False, None) \<Rightarrow>
                       (Inl (Exception ''Key does {0} not exist, and no parent function prescripted''), s1)
                   | (False, Some f) \<Rightarrow> (Inr (f block_idx), s1)
                   | (True, _) \<Rightarrow> s3_key_to_byte_io m k s1))))"

text \<open>
  \<^verbatim>\<open>BigMatrix.put_block_async\<close>.  \<open>allclose\<close> is \<^verbatim>\<open>np.allclose\<close>, a floating-point
  comparison taken as a parameter.
\<close>

definition current_shape_of :: "(int \<times> int) list \<Rightarrow> int list" where
  "current_shape_of real_idxs = map (\<lambda>(s, e). e - s) real_idxs"

definition put_block_async ::
  "('a, 'm) bigmatrix_scheme \<Rightarrow> ('a ndarray \<Rightarrow> 'a ndarray \<Rightarrow> bool) \<Rightarrow> 'a ndarray \<Rightarrow> int list \<Rightarrow> bool
     \<Rightarrow> 'a s3 \<Rightarrow> (pyerror + unit) \<times> 'a s3" where
  "put_block_async m allclose block block_idx no_overwrite s =
     (case shard_idx_to_key m block_idx of
        Inl e \<Rightarrow> (Inl e, s)
      | Inr k \<Rightarrow>
          (case
             (if no_overwrite then
                (case key_exists_async (bucket m) k s of
                   (exists, s1) \<Rightarrow>
                     if exists then
                       (case get_block_async m block_idx s1 of
                          (Inl e, s2) \<Rightarrow> (Inl e, s2)
                        | (Inr old_block, s2) \<Rightarrow>
                            if allclose old_block block then (Inr (), s2)
                            else (Inl AssertionError, s2))
                     else (Inr (), s1))
              else (Inr (), s))
           of
             (Inl e, s') \<Rightarrow> (Inl e, s')
           | (Inr u, s') \<Rightarrow>
               (case block_idx_to_real_idx m block_idx of
                  Inl e \<Rightarrow> (Inl e, s')
                | Inr real_idxs \<Rightarrow>
                    if nd_shape block \<noteq> current_shape_of real_idxs
                    then (Inl (Exception (''Incompatible block size: '' @ str_tuple (nd_shape block) @ '' vs '' @ str_tuple (current_shape_of real_idxs))), s')
                    else save_matrix_to_s3 m block k s')))"

section \<open>matrix.py: \<open>BigSymmetricMatrix\<close>\<close>

text \<open>
  \<^verbatim>\<open>X_block[np.diag_indices(X_block.shape[0])] += self.lambdav\<close>: the two index arrays
  address the items whose first two coordinates are \<open>(k, k)\<close>, \<open>k < shape[0]\<close>.
\<close>

definition add_diag :: "'a::plus ndarray \<Rightarrow> 'a \<Rightarrow> pyerror + 'a ndarray" where
  "add_diag X lam =
     (case nd_shape X of
        [] \<Rightarrow> Inl IndexError
      | [n] \<Rightarrow> Inl IndexError
      | n # n2 # rest \<Rightarrow>
          if 0 < n \<and> n2 < n then Inl IndexError
          else Inr (X\<lparr> nd_item := (\<lambda>idx.
                 case idx of
                   i # j # others \<Rightarrow> if i = j \<and> 0 \<le> i \<and> i < n then nd_item X idx + lam
                                   else nd_item X idx
                 | _ \<Rightarrow> nd_item X idx) \<rparr>))"

text \<open>
  \<^verbatim>\<open>np.load(bio).astype(self.dtype, loop)\<close>: the second positional argument of
  \<^verbatim>\<open>astype\<close> is \<^verbatim>\<open>order\<close>, and here it is the event loop, which is never \<^verbatim>\<open>None\<close> at this
  point.  numpy accepts only its order strings there and raises \<^verbatim>\<open>TypeError\<close>.
\<close>

definition astype_order_loop :: "'a ndarray \<Rightarrow> pyerror + 'a ndarray" where
  "astype_order_loop X = Inl TypeError"

text \<open>\<^verbatim>\<open>BigSymmetricMatrix.get_block_async\<close>.\<close>

definition sym_get_block_async ::
  "('a::plus, 'm) bigmatrix_scheme \<Rightarrow> int list \<Rightarrow> 'a s3 \<Rightarrow> (pyerror + 'a ndarray) \<times> 'a s3" where
  "sym_get_block_async m block_idx s =
     (case symmetrize_idx block_idx of
        Inl e \<Rightarrow> (Inl e, s)
      | Inr block_idx_sym \<Rightarrow>
          (let flipped = (block_idx_sym \<noteq> block_idx) in
           case shard_idx_to_key m block_idx_sym of
             Inl e \<Rightarrow> (Inl e, s)
           | Inr k \<Rightarrow>
               (case key_exists_async (bucket m) k s of
                  (exists, s1) \<Rightarrow>
                    (case
                       (case (exists, parent_fn m) of
                          (False, None) \<Rightarrow>
                            (Inl (Exception (''Key '' @ k @ '' does not exist, and no parent function prescripted'')), s1)
                        | (False, Some f) \<Rightarrow> (Inr (f block_idx_sym), s1)
                        | (True, _) \<Rightarrow>
                            (case s3_key_to_byte_io m k s1 of
                               (Inl e, s2) \<Rightarrow> (Inl e, s2)
                             | (Inr bio, s2) \<Rightarrow>
                                 (case astype_order_loop bio of
                                    Inl e \<Rightarrow> (Inl e, s2)
                                  | Inr X \<Rightarrow> (Inr X, s2))))
                     of
                       (Inl e, s2) \<Rightarrow> (Inl e, s2)
                     | (Inr X_block, s2) \<Rightarrow>
                         (let X1 = (if flipped then nd_T X_block else X_block) in
                          if card (set block_idx) = 1 then
                            (case add_diag X1 (lambdav m) of
                               Inl e \<Rightarrow> (Inl e, s2)
                             | Inr X2 \<Rightarrow> (Inr X2, s2))
                          else (Inr X1, s2))))))"

text \<open>
  \<^verbatim>\<open>BigSymmetricMatrix.put_block_async\<close>.  \<^verbatim>\<open>key\<close> is a local of the function (it is
  assigned further down), so reading it before the assignment raises
  \<^verbatim>\<open>UnboundLocalError\<close>, a subclass of \<^verbatim>\<open>NameError\<close>.
\<close>

definition read_local :: "string \<Rightarrow> 'v option \<Rightarrow> pyerror + 'v" where
  "read_local name v = (case v of None \<Rightarrow> Inl (UnboundLocalError name) | Some x \<Rightarrow> Inr x)"

definition sym_put_block_async ::
  "('a::plus, 'm) bigmatrix_scheme \<Rightarrow> ('a ndarray \<Rightarrow> 'a ndarray \<Rightarrow> bool) \<Rightarrow> 'a ndarray \<Rightarrow> int list
     \<Rightarrow> bool \<Rightarrow> 'a s3 \<Rightarrow> (pyerror + unit) \<times> 'a s3" where
  "sym_put_block_async m allclose block block_idx no_overwrite s =
     (let key_local = (None :: string option) in
      case
        (if no_overwrite then
           (case read_local ''key'' key_local of
              Inl e \<Rightarrow> (Inl e, s)
            | Inr k \<Rightarrow>
                (case key_exists_async (bucket m) k s of
                   (exists, s1) \<Rightarrow>
                     if exists then
                       (case sym_get_block_async m block_idx s1 of
                          (Inl e, s2) \<Rightarrow> (Inl e, s2)
                        | (Inr old_block, s2) \<Rightarrow>
                            if allclose old_block block then (Inr (), s2)
                            else (Inl AssertionError, s2))
                     else (Inr (), s1)))
         else (Inr (), s))
      of
        (Inl e, s') \<Rightarrow> (Inl e, s')
      | (Inr u, s') \<Rightarrow>
          (case symmetrize_idx block_idx of
             Inl e \<Rightarrow> (Inl e, s')
           | Inr block_idx_sym \<Rightarrow>
               (let block1 = (if block_idx_sym \<noteq> block_idx then nd_T block else block) in
                case block_idx_to_real_idx m block_idx_sym of
                  Inl e \<Rightarrow> (Inl e, s')
                | Inr real_idxs \<Rightarrow>
                    if nd_shape block1 \<noteq> current_shape_of real_idxs
                    then (Inl (Exception (''Incompatible block size: '' @ str_tuple (nd_shape block1) @ '' vs '' @ str_tuple (current_shape_of real_idxs))), s')
                    else
                      (case shard_idx_to_key m block_idx of
                         Inl e \<Rightarrow> (Inl e, s')
                       | Inr k \<Rightarrow> save_matrix_to_s3 m block1 k s'))))"


section \<open>matrix.py: enumeration of blocks\<close>

text \<open>
  \<^verbatim>\<open>range(0, stop, step)\<close>, and \<^verbatim>\<open>int(np.ceil(a / b))\<close> as the ceiling of the exact
  quotient (the source rounds a float quotient, which agrees on sizes below \<open>2^53\<close>).
\<close>

definition py_range0 :: "int \<Rightarrow> int \<Rightarrow> pyerror + int list" where
  "py_range0 stop step =
     (if step = 0 then Inl ValueError
      else if 0 < step then
        Inr (map (\<lambda>k. int k * step) [0 ..< (if 0 < stop then nat ((stop + step - 1) div step) else 0)])
      else
        Inr (map (\<lambda>k. int k * step) [0 ..< (if stop < 0 then nat ((stop + step + 1) div step) else 0)]))"

definition ceil_div :: "int \<Rightarrow> int \<Rightarrow> pyerror + int" where
  "ceil_div a b = (if b = 0 then Inl ZeroDivisionError else Inr (- ((- a) div b)))"

text \<open>
  The body of the loop of \<^verbatim>\<open>BigMatrix._blocks\<close> for one axis: the full-size ranges, the
  last one popped when it overshoots, the remainder appended.  Both reads of
  \<^verbatim>\<open>blocks_axis[-1]\<close> raise on an empty list.
\<close>

definition blocks_of_axis :: "int \<Rightarrow> int \<Rightarrow> pyerror + (int \<times> int) list" where
  "blocks_of_axis shape_i shard_i =
     (case py_range0 shape_i shard_i of
        Inl e \<Rightarrow> Inl e
      | Inr js \<Rightarrow>
          (let blocks_axis = map (\<lambda>j. (j, j + shard_i)) js in
           case py_getitem blocks_axis (- 1) of
             Inl e \<Rightarrow> Inl e
           | Inr final \<Rightarrow>
               (let blocks_axis1 = (if snd final > shape_i then butlast blocks_axis else blocks_axis) in
                case py_getitem blocks_axis1 (- 1) of
                  Inl e \<Rightarrow> Inl e
                | Inr final1 \<Rightarrow>
                    Inr (if snd final1 < shape_i then blocks_axis1 @ [(snd final1, shape_i)]
                         else blocks_axis1))))"

fun all_blocks_loop :: "int list \<Rightarrow> int list \<Rightarrow> nat list \<Rightarrow> pyerror + (int \<times> int) list list" where
  "all_blocks_loop shp ss [] = Inr []"
| "all_blocks_loop shp ss (i # rest) =
     (case py_getitem ss (int i) of
        Inl e \<Rightarrow> Inl e
      | Inr sz \<Rightarrow>
          (case blocks_of_axis (shp ! i) sz of
             Inl e \<Rightarrow> Inl e
           | Inr blocks_axis \<Rightarrow>
               (case all_blocks_loop shp ss rest of
                  Inl e \<Rightarrow> Inl e
                | Inr more_axes \<Rightarrow> Inr (blocks_axis # more_axes))))"

definition all_blocks :: "('a, 'm) bigmatrix_scheme \<Rightarrow> pyerror + (int \<times> int) list list" where
  "all_blocks m = all_blocks_loop (shape m) (shard_sizes m) [0 ..< length (shape m)]"

text \<open>\<^verbatim>\<open>BigMatrix._blocks(axis=i)\<close> for an integer axis.\<close>

definition blocks_axis :: "('a, 'm) bigmatrix_scheme \<Rightarrow> int \<Rightarrow> pyerror + (int \<times> int) list" where
  "blocks_axis m axis =
     (case all_blocks m of
        Inl e \<Rightarrow> Inl e
      | Inr ab \<Rightarrow> py_getitem ab axis)"

text \<open>
  \<^verbatim>\<open>BigMatrix._block_idxs\<close>: first the list comprehension calling
  \<^verbatim>\<open>self._blocks(axis=i)\<close> per axis, then the product or one axis.
\<close>

fun idxs_loop :: "('a, 'm) bigmatrix_scheme \<Rightarrow> nat list \<Rightarrow> pyerror + int list list" where
  "idxs_loop m [] = Inr []"
| "idxs_loop m (i # rest) =
     (case blocks_axis m (int i) of
        Inl e \<Rightarrow> Inl e
      | Inr bs \<Rightarrow>
          (case idxs_loop m rest of
             Inl e \<Rightarrow> Inl e
           | Inr more_axes \<Rightarrow> Inr (map int [0 ..< length bs] # more_axes)))"

definition block_idxs_all :: "('a, 'm) bigmatrix_scheme \<Rightarrow> pyerror + int list list" where
  "block_idxs_all m =
     (case idxs_loop m [0 ..< length (shape m)] of
        Inl e \<Rightarrow> Inl e
      | Inr idxs \<Rightarrow> Inr (product_lists idxs))"

definition block_idxs_axis :: "('a, 'm) bigmatrix_scheme \<Rightarrow> int \<Rightarrow> pyerror + int list" where
  "block_idxs_axis m axis =
     (case idxs_loop m [0 ..< length (shape m)] of
        Inl e \<Rightarrow> Inl e
      | Inr idxs \<Rightarrow> py_getitem idxs axis)"

text \<open>The property \<^verbatim>\<open>BigMatrix.block_idxs\<close>: \<^verbatim>\<open>return self._block_idxs()\<close>.\<close>

definition block_idxs :: "('a, 'm) bigmatrix_scheme \<Rightarrow> pyerror + int list list" where
  "block_idxs m = block_idxs_all m"

section \<open>matrix.py: \<open>BigMatrixView\<close>\<close>

text \<open>
  An argument of \<^verbatim>\<open>submatrix\<close>: \<^verbatim>\<open>None\<close>, an integer, a sequence, or a \<^verbatim>\<open>slice\<close>
  object.  A \<^verbatim>\<open>slice\<close> has three optional fields.
\<close>

datatype block_slice =
    BSNone
  | BSInt int
  | BSSeq "int list"
  | BSSlice "int option" "int option" "int option"

record pyslice =
  sl_start :: "int option"
  sl_stop :: "int option"
  sl_step :: "int option"

text \<open>
  \<^verbatim>\<open>BigMatrix.submatrix\<close>: the loop building \<^verbatim>\<open>updated_block_slices\<close>.  An argument that
  is already a \<^verbatim>\<open>slice\<close> matches none of the three branches and appends nothing.
\<close>

fun submatrix_loop :: "block_slice list \<Rightarrow> pyslice list \<Rightarrow> pyerror + pyslice list" where
  "submatrix_loop [] updated = Inr updated"
| "submatrix_loop (BSNone # rest) updated =
     submatrix_loop rest (updated @ [\<lparr> sl_start = None, sl_stop = None, sl_step = None \<rparr>])"
| "submatrix_loop (BSInt b # rest) updated =
     submatrix_loop rest (updated @ [\<lparr> sl_start = Some b, sl_stop = Some (b + 1), sl_step = Some 1 \<rparr>])"
| "submatrix_loop (BSSeq xs # rest) updated =
     (case xs of
        [a] \<Rightarrow> submatrix_loop rest (updated @ [\<lparr> sl_start = None, sl_stop = Some a, sl_step = None \<rparr>])
      | [a, b] \<Rightarrow> submatrix_loop rest (updated @ [\<lparr> sl_start = Some a, sl_stop = Some b, sl_step = None \<rparr>])
      | [a, b, c] \<Rightarrow> submatrix_loop rest (updated @ [\<lparr> sl_start = Some a, sl_stop = Some b, sl_step = Some c \<rparr>])
      | _ \<Rightarrow> Inl ValueError)"
| "submatrix_loop (BSSlice a b c # rest) updated = submatrix_loop rest updated"

text \<open>A slice of a view, with every \<^verbatim>\<open>None\<close> replaced.\<close>

record vslice =
  v_start :: int
  v_stop :: int
  v_step :: int

record 'a bigmatrixview =
  parent :: "'a bigmatrix"
  transposed :: bool
  view_shard_sizes :: "int list"
  parent_slices :: "vslice list"
  view_shape :: "int list"
  axis_lens :: "int list"

text \<open>\<^verbatim>\<open>BigMatrixView.__init__\<close>: the comprehension for \<^verbatim>\<open>axis_lens\<close>.\<close>

fun axis_lens_loop :: "int list \<Rightarrow> int list \<Rightarrow> nat list \<Rightarrow> pyerror + int list" where
  "axis_lens_loop shp ss [] = Inr []"
| "axis_lens_loop shp ss (i # rest) =
     (case py_getitem ss (int i) of
        Inl e \<Rightarrow> Inl e
      | Inr sz \<Rightarrow>
          (case ceil_div (shp ! i) sz of
             Inl e \<Rightarrow> Inl e
           | Inr n \<Rightarrow>
               (case axis_lens_loop shp ss rest of
                  Inl e \<Rightarrow> Inl e
                | Inr ns \<Rightarrow> Inr (n # ns))))"

text \<open>
  The loop over \<^verbatim>\<open>enumerate(parent_slices)\<close>, with the accumulators
  \<^verbatim>\<open>self.parent_slices\<close> and \<^verbatim>\<open>self.shape\<close>.
\<close>

fun view_slices_loop ::
  "int list \<Rightarrow> int list \<Rightarrow> int list \<Rightarrow> (nat \<times> pyslice) list \<Rightarrow> vslice list \<Rightarrow> int list
     \<Rightarrow> pyerror + (vslice list \<times> int list)" where
  "view_slices_loop pshape ss alens [] pslices shp = Inr (pslices, shp)"
| "view_slices_loop pshape ss alens ((i, parent_slice) # rest) pslices shp =
     (let start = (case sl_start parent_slice of None \<Rightarrow> 0 | Some a \<Rightarrow> a) in
      case (case sl_stop parent_slice of None \<Rightarrow> py_getitem alens (int i) | Some b \<Rightarrow> Inr b) of
        Inl e \<Rightarrow> Inl e
      | Inr stop \<Rightarrow>
          (let step = (case sl_step parent_slice of None \<Rightarrow> 1 | Some c \<Rightarrow> c) in
           case py_getitem ss (int i) of
             Inl e \<Rightarrow> Inl e
           | Inr sz \<Rightarrow>
               (case ceil_div (stop - start) step of
                  Inl e \<Rightarrow> Inl e
                | Inr nblocks \<Rightarrow>
                    (case py_getitem alens (int i) of
                       Inl e \<Rightarrow> Inl e
                     | Inr alen \<Rightarrow>
                         (if stop = alen \<and> (stop - 1 - start) mod step = 0
                          then
                            (case py_getitem pshape (int i) of
                               Inl e \<Rightarrow> Inl e
                             | Inr psh \<Rightarrow>
                                 view_slices_loop pshape ss alens rest
                                   (pslices @ [\<lparr> v_start = start, v_stop = stop, v_step = step \<rparr>])
                                   (shp @ [if psh mod sz \<noteq> 0 then sz * nblocks + (psh mod sz - sz)
                                           else sz * nblocks]))
                          else
                            view_slices_loop pshape ss alens rest
                              (pslices @ [\<lparr> v_start = start, v_stop = stop, v_step = step \<rparr>])
                              (shp @ [sz * nblocks]))))))"

text \<open>The loop over the trailing axes that were given no slice.\<close>

fun view_trailing_loop ::
  "int list \<Rightarrow> int list \<Rightarrow> nat list \<Rightarrow> vslice list \<Rightarrow> int list \<Rightarrow> vslice list \<times> int list" where
  "view_trailing_loop pshape alens [] pslices shp = (pslices, shp)"
| "view_trailing_loop pshape alens (i # rest) pslices shp =
     view_trailing_loop pshape alens rest
       (pslices @ [\<lparr> v_start = 0, v_stop = alens ! i, v_step = 1 \<rparr>]) (shp @ [pshape ! i])"

definition BigMatrixView :: "'a bigmatrix \<Rightarrow> pyslice list \<Rightarrow> bool \<Rightarrow> pyerror + 'a bigmatrixview" where
  "BigMatrixView p pslices0 tr =
     (case axis_lens_loop (shape p) (shard_sizes p) [0 ..< length (shape p)] of
        Inl e \<Rightarrow> Inl e
      | Inr alens \<Rightarrow>
          (case view_slices_loop (shape p) (shard_sizes p) alens (enumerate 0 pslices0) [] [] of
             Inl e \<Rightarrow> Inl e
           | Inr (pslices, shp) \<Rightarrow>
               (case view_trailing_loop (shape p) alens [length pslices ..< length (shape p)] pslices shp of
                  (pslices1, shp1) \<Rightarrow>
                    (let shp2 = (if tr then rev shp1 else shp1);
                         ss2 = (if tr then rev (shard_sizes p) else shard_sizes p)
                     in if length ss2 \<noteq> length shp2 then Inl AssertionError
                        else Inr \<lparr> parent = p, transposed = tr, view_shard_sizes = ss2,
                                   parent_slices = pslices1, view_shape = shp2, axis_lens = alens \<rparr>))))"

definition submatrix :: "'a bigmatrix \<Rightarrow> block_slice list \<Rightarrow> pyerror + 'a bigmatrixview" where
  "submatrix m block_slices =
     (case submatrix_loop block_slices [] of
        Inl e \<Rightarrow> Inl e
      | Inr updated_block_slices \<Rightarrow> BigMatrixView m updated_block_slices False)"


text \<open>
  \<^verbatim>\<open>__view_to_parent_block_idx__\<close>.  \<^verbatim>\<open>list.insert(i, 0)\<close> puts the zero before
  position \<open>i\<close>, or at the end when the list is shorter.
\<close>

fun pad_loop :: "int list \<Rightarrow> int list \<Rightarrow> nat list \<Rightarrow> int list \<Rightarrow> pyerror + int list" where
  "pad_loop shp ss [] intermediate_idx = Inr intermediate_idx"
| "pad_loop shp ss (i # rest) intermediate_idx =
     (case py_getitem ss (int i) of
        Inl e \<Rightarrow> Inl e
      | Inr sz \<Rightarrow>
          pad_loop shp ss rest
            (if shp ! i \<le> sz then take i intermediate_idx @ [0] @ drop i intermediate_idx
             else intermediate_idx))"

fun to_parent_loop :: "(vslice \<times> int) list \<Rightarrow> int list \<Rightarrow> pyerror + int list" where
  "to_parent_loop [] parent_idx = Inr parent_idx"
| "to_parent_loop ((parent_slice, intermediate_elt) # rest) parent_idx =
     (let parent_elt = intermediate_elt * v_step parent_slice + v_start parent_slice in
      if parent_elt < 0 then Inl NotImplementedError
      else if parent_elt \<ge> v_stop parent_slice then Inl IndexError
      else to_parent_loop rest (parent_idx @ [parent_elt]))"

definition view_to_parent_block_idx :: "'a bigmatrixview \<Rightarrow> int list \<Rightarrow> pyerror + int list" where
  "view_to_parent_block_idx v view_idx =
     (case (if length view_idx < length (view_shape v)
            then pad_loop (view_shape v) (view_shard_sizes v) [0 ..< length (view_shape v)] view_idx
            else Inr view_idx) of
        Inl e \<Rightarrow> Inl e
      | Inr intermediate_idx \<Rightarrow>
          if length intermediate_idx \<noteq> length (view_shape v) then Inl ValueError
          else to_parent_loop
                 (zip (parent_slices v) (if transposed v then rev intermediate_idx else intermediate_idx))
                 [])"

text \<open>
  \<^verbatim>\<open>BigMatrixView.get_block\<close>, over a parent that is a plain \<^verbatim>\<open>BigMatrix\<close>: the
  parent's \<^verbatim>\<open>get_block\<close> runs \<^verbatim>\<open>get_block_async\<close> to completion.
\<close>

definition view_get_block ::
  "'a bigmatrixview \<Rightarrow> int list \<Rightarrow> 'a s3 \<Rightarrow> (pyerror + 'a ndarray) \<times> 'a s3" where
  "view_get_block v block_idx s =
     (case view_to_parent_block_idx v block_idx of
        Inl e \<Rightarrow> (Inl e, s)
      | Inr parent_idx \<Rightarrow>
          (case get_block_async (parent v) parent_idx s of
             (Inl e, s') \<Rightarrow> (Inl e, s')
           | (Inr block, s') \<Rightarrow> (Inr (if transposed v then nd_T block else block), s')))"

text \<open>
  \<^verbatim>\<open>__is_valid_parent_block_idx__\<close> and \<^verbatim>\<open>__parent_to_view_block_idx__\<close>: the loops over
  the zipped index and slices; with \<^verbatim>\<open>axis\<close> given, both are run on the one-element
  lists \<^verbatim>\<open>[parent_idx]\<close> and \<^verbatim>\<open>[self.parent_slices[axis]]\<close>.
\<close>

fun is_valid_loop :: "(int \<times> vslice) list \<Rightarrow> pyerror + bool" where
  "is_valid_loop [] = Inr True"
| "is_valid_loop ((parent_elt, parent_slice) # rest) =
     (if parent_elt < 0 then Inl NotImplementedError
      else if parent_elt < v_start parent_slice then Inr False
      else if parent_elt \<ge> v_stop parent_slice then Inr False
      else if v_step parent_slice = 0 then Inl ZeroDivisionError
      else if (parent_elt - v_start parent_slice) mod v_step parent_slice \<noteq> 0 then Inr False
      else is_valid_loop rest)"

definition is_valid_parent_block_idx :: "'a bigmatrixview \<Rightarrow> int list \<Rightarrow> pyerror + bool" where
  "is_valid_parent_block_idx v parent_idx = is_valid_loop (zip parent_idx (parent_slices v))"

definition is_valid_parent_block_idx_axis :: "'a bigmatrixview \<Rightarrow> int \<Rightarrow> int \<Rightarrow> pyerror + bool" where
  "is_valid_parent_block_idx_axis v parent_idx axis =
     (case py_getitem (parent_slices v) axis of
        Inl e \<Rightarrow> Inl e
      | Inr parent_slice \<Rightarrow> is_valid_loop (zip [parent_idx] [parent_slice]))"

fun to_view_loop :: "(int \<times> vslice) list \<Rightarrow> int list \<Rightarrow> pyerror + int list" where
  "to_view_loop [] view_idx = Inr view_idx"
| "to_view_loop ((parent_elt, parent_slice) # rest) view_idx =
     (if v_step parent_slice = 0 then Inl ZeroDivisionError
      else to_view_loop rest
             (view_idx @ [(parent_elt - v_start parent_slice) div v_step parent_slice]))"

definition parent_to_view_block_idx :: "'a bigmatrixview \<Rightarrow> int list \<Rightarrow> pyerror + int list" where
  "parent_to_view_block_idx v parent_idx =
     (case to_view_loop (zip parent_idx (parent_slices v)) [] of
        Inl e \<Rightarrow> Inl e
      | Inr view_idx \<Rightarrow> Inr (if transposed v then rev view_idx else view_idx))"

definition parent_to_view_block_idx_axis :: "'a bigmatrixview \<Rightarrow> int \<Rightarrow> int \<Rightarrow> pyerror + int" where
  "parent_to_view_block_idx_axis v parent_idx axis =
     (case py_getitem (parent_slices v) axis of
        Inl e \<Rightarrow> Inl e
      | Inr parent_slice \<Rightarrow>
          (case to_view_loop (zip [parent_idx] [parent_slice]) [] of
             Inl e \<Rightarrow> Inl e
           | Inr view_idx \<Rightarrow> py_getitem view_idx 0))"

text \<open>
  \<^verbatim>\<open>list(map(to_view, filter(is_valid, parent_idxs)))\<close>: the lazy \<^verbatim>\<open>filter\<close> and \<^verbatim>\<open>map\<close>
  are driven element by element, and the first exception ends the traversal.
\<close>

fun map_filter_idxs ::
  "('i \<Rightarrow> pyerror + bool) \<Rightarrow> ('i \<Rightarrow> pyerror + 'o) \<Rightarrow> 'i list \<Rightarrow> pyerror + 'o list" where
  "map_filter_idxs valid conv [] = Inr []"
| "map_filter_idxs valid conv (x # xs) =
     (case valid x of
        Inl e \<Rightarrow> Inl e
      | Inr keep \<Rightarrow>
          (if keep then
             (case conv x of
                Inl e \<Rightarrow> Inl e
              | Inr y \<Rightarrow>
                  (case map_filter_idxs valid conv xs of
                     Inl e \<Rightarrow> Inl e
                   | Inr ys \<Rightarrow> Inr (y # ys)))
           else map_filter_idxs valid conv xs))"

text \<open>
  The property \<^verbatim>\<open>BigMatrixView.block_idxs\<close>.  Its first statement is
  \<^verbatim>\<open>parent_idxs = self.parent.block_idxs()\<close>: \<^verbatim>\<open>block_idxs\<close> is a property of the parent,
  so the attribute access already yields the list, and the call applies that list to
  no arguments.  Calling a list raises \<^verbatim>\<open>TypeError\<close>.
\<close>

definition py_call_list :: "'x list \<Rightarrow> pyerror + 'x list" where
  "py_call_list xs = Inl TypeError"

definition view_block_idxs :: "'a bigmatrixview \<Rightarrow> pyerror + int list list" where
  "view_block_idxs v =
     (case block_idxs (parent v) of
        Inl e \<Rightarrow> Inl e
      | Inr attr \<Rightarrow>
          (case py_call_list attr of
             Inl e \<Rightarrow> Inl e
           | Inr parent_idxs \<Rightarrow>
               map_filter_idxs (is_valid_parent_block_idx v) (parent_to_view_block_idx v) parent_idxs))"

text \<open>
  \<^verbatim>\<open>BigMatrixView._block_idxs(axis)\<close>, for an integer axis and for \<^verbatim>\<open>axis=None\<close>.  On a
  transposed view \<^verbatim>\<open>__view_to_parent_axis__\<close> subtracts the axis from an integer, which
  raises \<^verbatim>\<open>TypeError\<close> when the axis is \<^verbatim>\<open>None\<close>.
\<close>

definition view_to_parent_axis :: "'a bigmatrixview \<Rightarrow> int \<Rightarrow> int" where
  "view_to_parent_axis v view_axis =
     (if transposed v then int (length (view_shape v)) - view_axis - 1 else view_axis)"

definition view_block_idxs_axis :: "'a bigmatrixview \<Rightarrow> int \<Rightarrow> pyerror + int list" where
  "view_block_idxs_axis v axis =
     (let parent_axis = view_to_parent_axis v axis in
      case block_idxs_axis (parent v) parent_axis of
        Inl e \<Rightarrow> Inl e
      | Inr parent_idxs \<Rightarrow>
          map_filter_idxs (\<lambda>x. is_valid_parent_block_idx_axis v x parent_axis)
            (\<lambda>x. parent_to_view_block_idx_axis v x parent_axis) parent_idxs)"

definition view_block_idxs_all :: "'a bigmatrixview \<Rightarrow> pyerror + int list list" where
  "view_block_idxs_all v =
     (if transposed v then Inl TypeError
      else
        (case block_idxs_all (parent v) of
           Inl e \<Rightarrow> Inl e
         | Inr parent_idxs \<Rightarrow>
             map_filter_idxs (is_valid_parent_block_idx v) (parent_to_view_block_idx v) parent_idxs))"


section \<open>job_runner.py: \<open>LRUCache\<close>\<close>

record ('k, 'v) lrucache =
  cache :: "'k \<rightharpoonup> 'v"
  key_order :: "'k list"
  max_items :: int

definition LRUCache :: "int \<Rightarrow> ('k, 'v) lrucache" where
  "LRUCache n = \<lparr> cache = Map.empty, key_order = [], max_items = n \<rparr>"

text \<open>
  \<^verbatim>\<open>_mark\<close>.  Each statement that can raise leaves the mutations made before it in
  place: the subscript \<^verbatim>\<open>self.key_order[self.max_items]\<close>, the \<^verbatim>\<open>del\<close> of a key that is
  not in the dictionary.  \<^verbatim>\<open>gc.collect()\<close> has no effect on the cache.
\<close>

definition mark :: "('k, 'v) lrucache \<Rightarrow> 'k \<Rightarrow> (pyerror + unit) \<times> ('k, 'v) lrucache" where
  "mark c k =
     (let c1 = (if k \<in> set (key_order c) then c\<lparr> key_order := remove1 k (key_order c) \<rparr> else c);
          c2 = c1\<lparr> key_order := k # key_order c1 \<rparr>
      in if int (length (key_order c2)) > max_items c2 then
           (case py_getitem (key_order c2) (max_items c2) of
              Inl e \<Rightarrow> (Inl e, c2)
            | Inr remove \<Rightarrow>
                (case cache c2 remove of
                   None \<Rightarrow> (Inl KeyError, c2)
                 | Some old \<Rightarrow>
                     (let c3 = c2\<lparr> cache := (cache c2)(remove := None) \<rparr>
                      in (Inr (), c3\<lparr> key_order := remove1 remove (key_order c3) \<rparr>))))
         else (Inr (), c2))"

definition setitem :: "('k, 'v) lrucache \<Rightarrow> 'k \<Rightarrow> 'v \<Rightarrow> (pyerror + unit) \<times> ('k, 'v) lrucache" where
  "setitem c k v = mark (c\<lparr> cache := (cache c)(k \<mapsto> v) \<rparr>) k"

definition getitem :: "('k, 'v) lrucache \<Rightarrow> 'k \<Rightarrow> (pyerror + 'v) \<times> ('k, 'v) lrucache" where
  "getitem c k =
     (case cache c k of
        None \<Rightarrow> (Inl KeyError, c)
      | Some v \<Rightarrow>
          (case mark c k of
             (Inl e, c') \<Rightarrow> (Inl e, c')
           | (Inr u, c') \<Rightarrow> (Inr v, c')))"

definition contains :: "('k, 'v) lrucache \<Rightarrow> 'k \<Rightarrow> bool" where
  "contains c obj = (cache c obj \<noteq> None)"

section \<open>job_runner.py: \<open>LambdaPackExecutor.run\<close>\<close>

text \<open>
  Modelled from the spec: the exit codes \<^verbatim>\<open>lp.EC\<close> come from the module
  \<^verbatim>\<open>lambdapack\<close>, which is not among the sources; the spec lists the three statuses.
\<close>

datatype EC = SUCCESS | EXCEPTION | RUNNING

text \<open>
  The program is an external collaborator.  Its hooks and its instructions act on a
  world \<open>'w\<close> (program state, object store, the injected compute resource and cache) and
  may raise.  \<open>inst_blocks\<close> is the mapping from program counter to the instructions of
  its block, \<open>queue_urls\<close> the queues, highest priority last.
\<close>

type_synonym 'w instr = "'w \<Rightarrow> (pyerror + unit) \<times> 'w"

record 'w program =
  pre_op :: "int \<Rightarrow> 'w \<Rightarrow> (pyerror + unit) \<times> 'w"
  post_op :: "int \<Rightarrow> EC \<Rightarrow> string option \<Rightarrow> 'w \<Rightarrow> (pyerror + int option) \<times> 'w"
  inst_blocks :: "int \<rightharpoonup> 'w instr list"
  queue_urls :: "string list"

text \<open>
  The calls the executor makes, in order: a trace kept beside the world so that
  statements about which hook was called, with what, can be made.  \<open>EvInstr pc k\<close> is
  the await of the \<open>k\<close>-th instruction of the block of \<open>pc\<close>.
\<close>

datatype event =
    EvPreOp int
  | EvInstr int nat
  | EvPostOp int EC "string option"

text \<open>
  \<^verbatim>\<open>traceback.format_exc()\<close>: the header line, the frames (not modelled), and the line
  naming the exception.
\<close>

fun exc_name :: "pyerror \<Rightarrow> string" where
  "exc_name IndexError = ''IndexError''"
| "exc_name KeyError = ''KeyError''"
| "exc_name TypeError = ''TypeError''"
| "exc_name ValueError = ''ValueError''"
| "exc_name ZeroDivisionError = ''ZeroDivisionError''"
| "exc_name NotImplementedError = ''NotImplementedError''"
| "exc_name AssertionError = ''AssertionError''"
| "exc_name (UnboundLocalError n) = ''UnboundLocalError: '' @ n"
| "exc_name (Exception msg) = ''Exception: '' @ msg"
| "exc_name (ClientError msg) = ''ClientError: '' @ msg"

definition format_exc :: "pyerror \<Rightarrow> string" where
  "format_exc e = ''Traceback (most recent call last): '' @ exc_name e"

text \<open>The inner loop \<^verbatim>\<open>for instr in instrs\<close>: each instruction is awaited in turn.\<close>

fun exec_instrs ::
  "int \<Rightarrow> 'w instr list \<Rightarrow> nat \<Rightarrow> 'w \<Rightarrow> event list \<Rightarrow> (pyerror + unit) \<times> 'w \<times> event list" where
  "exec_instrs pc [] k w tr = (Inr (), w, tr)"
| "exec_instrs pc (instr # rest) k w tr =
     (case instr w of
        (Inl e, w') \<Rightarrow> (Inl e, w', tr @ [EvInstr pc k])
      | (Inr u, w') \<Rightarrow> exec_instrs pc rest (Suc k) w' (tr @ [EvInstr pc k]))"

text \<open>
  The body of the \<^verbatim>\<open>try\<close>: the instructions, then \<^verbatim>\<open>post_op(pc, SUCCESS)\<close>, whose
  result is the next program counter.
\<close>

definition try_body ::
  "'w program \<Rightarrow> int \<Rightarrow> 'w instr list \<Rightarrow> 'w \<Rightarrow> event list
     \<Rightarrow> (pyerror + int option) \<times> 'w \<times> event list" where
  "try_body P pc instrs w tr =
     (case exec_instrs pc instrs 0 w tr of
        (Inl e, w1, tr1) \<Rightarrow> (Inl e, w1, tr1)
      | (Inr u, w1, tr1) \<Rightarrow>
          (case post_op P pc SUCCESS None w1 of
             (Inl e, w2) \<Rightarrow> (Inl e, w2, tr1 @ [EvPostOp pc SUCCESS None])
           | (Inr next_pc, w2) \<Rightarrow> (Inr next_pc, w2, tr1 @ [EvPostOp pc SUCCESS None])))"

text \<open>
  One turn of \<^verbatim>\<open>for pc in pcs\<close>: \<^verbatim>\<open>pre_op\<close> and the lookup of the block stand before
  the \<^verbatim>\<open>try\<close>; the handler \<^verbatim>\<open>except Exception\<close> calls \<^verbatim>\<open>post_op(pc, EXCEPTION, tb=tb)\<close>
  and re-raises (an exception of that call replaces the one in flight).
\<close>

definition run_block ::
  "'w program \<Rightarrow> int \<Rightarrow> 'w \<Rightarrow> event list \<Rightarrow> (pyerror + int option) \<times> 'w \<times> event list" where
  "run_block P pc w tr =
     (case pre_op P pc w of
        (Inl e, w1) \<Rightarrow> (Inl e, w1, tr @ [EvPreOp pc])
      | (Inr u, w1) \<Rightarrow>
          (case inst_blocks P pc of
             None \<Rightarrow> (Inl KeyError, w1, tr @ [EvPreOp pc])
           | Some instrs \<Rightarrow>
               (case try_body P pc instrs w1 (tr @ [EvPreOp pc]) of
                  (Inr next_pc, w2, tr2) \<Rightarrow> (Inr next_pc, w2, tr2)
                | (Inl e, w2, tr2) \<Rightarrow>
                    (let tb = format_exc e in
                     case post_op P pc EXCEPTION (Some tb) w2 of
                       (Inl e', w3) \<Rightarrow> (Inl e', w3, tr2 @ [EvPostOp pc EXCEPTION (Some tb)])
                     | (Inr r, w3) \<Rightarrow> (Inl e, w3, tr2 @ [EvPostOp pc EXCEPTION (Some tb)])))))"

text \<open>
  \<^verbatim>\<open>for pc in pcs\<close> over a list that grows while it is traversed: position \<open>i\<close> in
  \<open>pcs\<close>.  A chain of counters need not end, so the loop takes fuel and \<open>None\<close> is "did
  not return within the fuel".  The final worklist is returned beside the trace.
\<close>

fun run_loop ::
  "nat \<Rightarrow> 'w program \<Rightarrow> int list \<Rightarrow> nat \<Rightarrow> 'w \<Rightarrow> event list
     \<Rightarrow> ((pyerror + unit) \<times> 'w \<times> event list \<times> int list) option" where
  "run_loop 0 P pcs i w tr = None"
| "run_loop (Suc fuel) P pcs i w tr =
     (if i < length pcs then
        (case run_block P (pcs ! i) w tr of
           (Inl e, w', tr') \<Rightarrow> Some (Inl e, w', tr', pcs)
         | (Inr next_pc, w', tr') \<Rightarrow>
             run_loop fuel P (case next_pc of None \<Rightarrow> pcs | Some n \<Rightarrow> pcs @ [n]) (Suc i) w' tr')
      else Some (Inr (), w, tr, pcs))"

definition run ::
  "nat \<Rightarrow> 'w program \<Rightarrow> int \<Rightarrow> 'w \<Rightarrow> ((pyerror + unit) \<times> 'w \<times> event list \<times> int list) option" where
  "run fuel P pc w = run_loop fuel P [pc] 0 w []"

section \<open>job_runner.py: the poll cycle of \<open>lambdapack_run_async\<close>\<close>

text \<open>
  The queue service with deterministic queues: per queue the visible messages in
  delivery order, the messages in flight, and the receive requests made (queue and
  \<^verbatim>\<open>MaxNumberOfMessages\<close>).  A response carries the key \<^verbatim>\<open>"Messages"\<close> only when at least
  one message is delivered: \<open>None\<close> is a response without the key.
\<close>

record 'msg sqs =
  visible :: "string \<Rightarrow> 'msg list"
  inflight :: "(string \<times> 'msg) list"
  recv_log :: "(string \<times> nat) list"

definition receive_message :: "string \<Rightarrow> nat \<Rightarrow> 'msg sqs \<Rightarrow> 'msg list option \<times> 'msg sqs" where
  "receive_message queue_url max_number q =
     (let q1 = q\<lparr> recv_log := recv_log q @ [(queue_url, max_number)] \<rparr>;
          delivered = take max_number (visible q queue_url)
      in if delivered = [] then (None, q1)
         else (Some delivered,
               q1\<lparr> visible := (visible q)(queue_url := drop max_number (visible q queue_url)),
                   inflight := inflight q @ map (\<lambda>m. (queue_url, m)) delivered \<rparr>))"

text \<open>
  The loop \<^verbatim>\<open>for queue_url in program.queue_urls[::-1]\<close>.  Python's loop variables
  outlive the loop, so the bindings of \<^verbatim>\<open>messages\<close> and \<^verbatim>\<open>queue_url\<close> are threaded
  through: \<open>None\<close> is "not bound yet".
\<close>

fun poll_queues ::
  "string list \<Rightarrow> 'msg list option option \<Rightarrow> string option \<Rightarrow> 'msg sqs
     \<Rightarrow> 'msg list option option \<times> string option \<times> 'msg sqs" where
  "poll_queues [] messages queue_url q = (messages, queue_url, q)"
| "poll_queues (u # us) messages queue_url q =
     (case receive_message u 1 q of
        (None, q') \<Rightarrow> poll_queues us (Some None) (Some u) q'
      | (Some ms, q') \<Rightarrow> (Some (Some ms), Some u, q'))"

text \<open>
  One cycle of the \<^verbatim>\<open>while(True)\<close> up to the choice of the message: the poll, the test
  \<^verbatim>\<open>"Messages" not in messages\<close> that restarts the cycle, and \<^verbatim>\<open>messages["Messages"][0]\<close>.
\<close>

datatype 'msg cycle = Raised pyerror | NoMessage | Selected string 'msg

definition poll_cycle ::
  "'w program \<Rightarrow> 'msg list option option \<Rightarrow> string option \<Rightarrow> 'msg sqs
     \<Rightarrow> 'msg cycle \<times> 'msg list option option \<times> string option \<times> 'msg sqs" where
  "poll_cycle P messages0 queue_url0 q =
     (case poll_queues (rev (queue_urls P)) messages0 queue_url0 q of
        (messages, queue_url, q') \<Rightarrow>
          (case messages of
             None \<Rightarrow> (Raised (UnboundLocalError ''messages''), messages, queue_url, q')
           | Some None \<Rightarrow> (NoMessage, messages, queue_url, q')
           | Some (Some ms) \<Rightarrow>
               (case (py_getitem ms 0, queue_url) of
                  (Inl e, _) \<Rightarrow> (Raised e, messages, queue_url, q')
                | (Inr msg, None) \<Rightarrow> (Raised (UnboundLocalError ''queue_url''), messages, queue_url, q')
                | (Inr msg, Some u) \<Rightarrow> (Selected u msg, messages, queue_url, q'))))"


section \<open>Invariants and concrete instances used in the statements\<close>

text \<open>
  The representation invariant of \<^verbatim>\<open>LRUCache\<close>: \<^verbatim>\<open>key_order\<close> lists the keys of
  \<^verbatim>\<open>cache\<close>, each once, most recently used first, and no more than \<^verbatim>\<open>max_items\<close> of them.
\<close>

definition lru_inv :: "('k, 'v) lrucache \<Rightarrow> bool" where
  "lru_inv c = (distinct (key_order c) \<and> set (key_order c) = dom (cache c)
                 \<and> int (length (key_order c)) \<le> max_items c)"

text \<open>
  A 4 by 4 matrix in 2 by 2 blocks, with no producer registered (the same fields serve
  \<^verbatim>\<open>BigMatrix\<close> and \<^verbatim>\<open>BigSymmetricMatrix\<close>), an empty bucket, a constant block, and a
  bucket that holds block (0, 0) and whose next \<^verbatim>\<open>get_object\<close> fails once.
\<close>

definition demo_mat :: "int bigmatrix" where
  "demo_mat = \<lparr> bucket = ''bkt'', key_base = ''numpywren.objects/A'', shape = [4, 4],
                shard_sizes = [2, 2], parent_fn = None, lambdav = 0 \<rparr>"

definition s3_empty :: "int s3" where
  "s3_empty = \<lparr> objects = Map.empty, get_faults = [], oplog = [] \<rparr>"

definition const_block :: "int list \<Rightarrow> int \<Rightarrow> int ndarray" where
  "const_block shp v = \<lparr> nd_shape = shp, nd_item = (\<lambda>idx. v) \<rparr>"

definition flaky_store :: "int s3" where
  "flaky_store =
     \<lparr> objects = [(''bkt'', ''numpywren.objects/A/0_2_2_0_2_2_'') \<mapsto> const_block [2, 2] 7],
       get_faults = [Some (ClientError ''RequestTimeout'')], oplog = [] \<rparr>"

text \<open>
  A cache of capacity 2 after \<^verbatim>\<open>c["A"] = 1; c["B"] = 2\<close>, after \<^verbatim>\<open>c["C"] = 3\<close> on top
  of that, and after \<^verbatim>\<open>c["B"]; c["D"] = 4\<close> on top of that.
\<close>

definition lru_ab :: "(string, nat) lrucache" where
  "lru_ab = snd (setitem (snd (setitem (LRUCache 2) ''A'' 1)) ''B'' 2)"

definition lru_abc :: "(string, nat) lrucache" where
  "lru_abc = snd (setitem lru_ab ''C'' 3)"

definition lru_abc_b_d :: "(string, nat) lrucache" where
  "lru_abc_b_d = snd (setitem (snd (getitem lru_abc ''B'')) ''D'' 4)"

text \<open>
  The calls that one successfully completed program counter leaves in the trace, as
  the specification describes a turn of the executor: \<^verbatim>\<open>pre_op\<close>, every instruction of
  the block in order, \<^verbatim>\<open>post_op(pc, SUCCESS)\<close>.
\<close>

definition spec_block_events :: "'w program \<Rightarrow> int \<Rightarrow> event list" where
  "spec_block_events P pc =
     EvPreOp pc
     # map (EvInstr pc) [0 ..< length (case inst_blocks P pc of None \<Rightarrow> [] | Some instrs \<Rightarrow> instrs)]
     @ [EvPostOp pc SUCCESS None]"

text \<open>
  The executor as the specification words it, without fuel and without a worklist.
  \<open>spec_seq\<close>: the instructions of a block run strictly in sequence, each on the world
  the one before it left, and all return.  \<open>spec_turn\<close>: one counter is served by
  \<^verbatim>\<open>pre_op\<close>, its block, and \<^verbatim>\<open>post_op(pc, SUCCESS)\<close> on the world the block left, whose
  result is the next counter or \<^verbatim>\<open>None\<close>.  \<open>spec_chain\<close>: the counters served from a
  seed on, each the non-null result of the turn before it, up to the turn whose result
  is \<^verbatim>\<open>None\<close>.
\<close>

inductive spec_seq :: "'w instr list \<Rightarrow> 'w \<Rightarrow> 'w \<Rightarrow> bool" where
  seq_nil: "spec_seq [] w w"
| seq_cons: "instr w = (Inr u, w1) \<Longrightarrow> spec_seq rest w1 w2 \<Longrightarrow> spec_seq (instr # rest) w w2"

inductive spec_turn :: "'w program \<Rightarrow> int \<Rightarrow> 'w \<Rightarrow> int option \<Rightarrow> 'w \<Rightarrow> bool" where
  turn: "pre_op P pc w = (Inr u, w1) \<Longrightarrow> inst_blocks P pc = Some instrs \<Longrightarrow>
         spec_seq instrs w1 w2 \<Longrightarrow> post_op P pc SUCCESS None w2 = (Inr nxt, w3) \<Longrightarrow>
         spec_turn P pc w nxt w3"

inductive spec_chain :: "'w program \<Rightarrow> int \<Rightarrow> 'w \<Rightarrow> int list \<Rightarrow> 'w \<Rightarrow> bool" where
  chain_last: "spec_turn P pc w None w' \<Longrightarrow> spec_chain P pc w [pc] w'"
| chain_next: "spec_turn P pc w (Some n) w1 \<Longrightarrow> spec_chain P n w1 ps w' \<Longrightarrow>
               spec_chain P pc w (pc # ps) w'"

text \<open>
  Two programs over a world that counts the calls of \<^verbatim>\<open>post_op\<close>: the first call
  returns counter 5, every later one \<^verbatim>\<open>None\<close>.  In \<open>chain_prog\<close> every instruction
  succeeds; in \<open>fail_prog\<close> the second instruction of block 5 raises.
\<close>

definition ok_instr :: "nat instr" where
  "ok_instr w = (Inr (), w)"

definition boom_instr :: "nat instr" where
  "boom_instr w = (Inl (Exception ''boom''), w)"

definition chain_prog :: "nat program" where
  "chain_prog =
     \<lparr> pre_op = (\<lambda>pc w. (Inr (), w)),
       post_op = (\<lambda>pc ec tb w. (Inr (if w = 0 then Some 5 else None), Suc w)),
       inst_blocks = [1 \<mapsto> [ok_instr, ok_instr], 5 \<mapsto> [ok_instr]],
       queue_urls = [''q0'', ''q1'', ''q2''] \<rparr>"

definition fail_prog :: "nat program" where
  "fail_prog = chain_prog\<lparr> inst_blocks := [1 \<mapsto> [ok_instr, ok_instr], 5 \<mapsto> [ok_instr, boom_instr, ok_instr]] \<rparr>"

text \<open>
  Three queues, lowest priority first: the queue of highest priority is empty, the
  other two hold messages.
\<close>

definition demo_queues :: "string sqs" where
  "demo_queues =
     \<lparr> visible = (\<lambda>u. if u = ''q0'' then [''10''] else if u = ''q1'' then [''20'', ''21''] else []),
       inflight = [], recv_log = [] \<rparr>"

text \<open>
  A one-axis matrix of 20 elements in blocks of 2 (block count 10), and the view that
  \<^verbatim>\<open>submatrix((2, 5))\<close> builds over it.
\<close>

definition demo_vec :: "int bigmatrix" where
  "demo_vec = \<lparr> bucket = ''bkt'', key_base = ''numpywren.objects/V'', shape = [20],
                shard_sizes = [2], parent_fn = None, lambdav = 0 \<rparr>"

definition demo_view :: "int bigmatrixview" where
  "demo_view = \<lparr> parent = demo_vec, transposed = False, view_shard_sizes = [2],
                 parent_slices = [\<lparr> v_start = 2, v_stop = 5, v_step = 1 \<rparr>],
                 view_shape = [6], axis_lens = [10] \<rparr>"

section \<open>Block addressing\<close>

lemma py_getitem_nth: "i < length xs \<Longrightarrow> py_getitem xs (int i) = Inr (xs ! i)"
  by (simp add: py_getitem_def)

lemma real_idx_loop_total:
  assumes "\<forall>i\<in>set js. i < length block_idx \<and> i < length ss"
  shows "real_idx_loop shp ss block_idx js starts ends =
     Inr (starts @ map (\<lambda>i. block_idx ! i * ss ! i) js,
          ends @ map (\<lambda>i. min (block_idx ! i * ss ! i + ss ! i) (shp ! i)) js)"
  using assms
  by (induction js arbitrary: starts ends) (simp_all add: py_getitem_def Let_def)

lemma zip_map_same: "zip (map f xs) (map g xs) = map (\<lambda>x. (f x, g x)) xs"
  by (induction xs) simp_all

lemma str_small: "str_int 0 = ''0''" "str_int 2 = ''2''" "str_int 4 = ''4''"
  by (simp_all add: str_int_def str_nat.simps digit_char_def)

lemma demo_fields:
  "bucket demo_mat = ''bkt''" "parent_fn demo_mat = None" "shape demo_mat = [4, 4]"
  "shard_sizes demo_mat = [2, 2]"
  by (simp_all add: demo_mat_def)

lemma real_01: "block_idx_to_real_idx demo_mat [0, 1] = Inr [(0, 2), (2, 4)]"
  by (simp add: block_idx_to_real_idx_def demo_mat_def py_getitem_def)

lemma real_10: "block_idx_to_real_idx demo_mat [1, 0] = Inr [(2, 4), (0, 2)]"
  by (simp add: block_idx_to_real_idx_def demo_mat_def py_getitem_def)

lemma real_00: "block_idx_to_real_idx demo_mat [0, 0] = Inr [(0, 2), (0, 2)]"
  by (simp add: block_idx_to_real_idx_def demo_mat_def py_getitem_def)

lemma real_20: "block_idx_to_real_idx demo_mat [2, 0] = Inr [(4, 4), (0, 2)]"
  by (simp add: block_idx_to_real_idx_def demo_mat_def py_getitem_def)

lemma gk_01: "get_matrix_shard_key demo_mat [(0, 2), (2, 4)] = ''numpywren.objects/A/0_2_2_2_4_2_''"
  by (simp add: get_matrix_shard_key_def demo_mat_def os_path_join_def str_small)

lemma gk_10: "get_matrix_shard_key demo_mat [(2, 4), (0, 2)] = ''numpywren.objects/A/2_4_2_0_2_2_''"
  by (simp add: get_matrix_shard_key_def demo_mat_def os_path_join_def str_small)

lemma gk_00: "get_matrix_shard_key demo_mat [(0, 2), (0, 2)] = ''numpywren.objects/A/0_2_2_0_2_2_''"
  by (simp add: get_matrix_shard_key_def demo_mat_def os_path_join_def str_small)

lemma gk_20: "get_matrix_shard_key demo_mat [(4, 4), (0, 2)] = ''numpywren.objects/A/4_4_2_0_2_2_''"
  by (simp add: get_matrix_shard_key_def demo_mat_def os_path_join_def str_small)

lemma key_01: "shard_idx_to_key demo_mat [0, 1] = Inr ''numpywren.objects/A/0_2_2_2_4_2_''"
  by (simp add: shard_idx_to_key_def real_01 gk_01)

lemma key_10: "shard_idx_to_key demo_mat [1, 0] = Inr ''numpywren.objects/A/2_4_2_0_2_2_''"
  by (simp add: shard_idx_to_key_def real_10 gk_10)

lemma key_00: "shard_idx_to_key demo_mat [0, 0] = Inr ''numpywren.objects/A/0_2_2_0_2_2_''"
  by (simp add: shard_idx_to_key_def real_00 gk_00)

lemma key_20: "shard_idx_to_key demo_mat [2, 0] = Inr ''numpywren.objects/A/4_4_2_0_2_2_''"
  by (simp add: shard_idx_to_key_def real_20 gk_20)

text \<open>
  Claim C4, as amended.  For a block index of the arity of \<open>shape\<close> and \<open>shard_sizes\<close>,
  \<^verbatim>\<open>__block_idx_to_real_idx__\<close> returns, per axis, \<open>start = block_idx[i] * shard_sizes[i]\<close>
  and \<open>end = min (start + shard_sizes[i]) shape[i]\<close>, and it returns them for every such
  index: no exception is raised, whatever the ranges are.
\<close>

theorem block_idx_to_real_idx_total:
  assumes "length block_idx = length (shape m)" and "length (shard_sizes m) = length (shape m)"
  shows "block_idx_to_real_idx m block_idx =
     Inr (map (\<lambda>i. (block_idx ! i * shard_sizes m ! i,
                     min (block_idx ! i * shard_sizes m ! i + shard_sizes m ! i) (shape m ! i)))
            [0 ..< length (shape m)])"
  using assms by (simp add: block_idx_to_real_idx_def real_idx_loop_total zip_map_same)

theorem block_idx_to_real_idx_total_witness:
  "length [1, 0 :: int] = length (shape demo_mat)
   \<and> length (shard_sizes demo_mat) = length (shape demo_mat)
   \<and> block_idx_to_real_idx demo_mat [1, 0] = Inr [(2, 4), (0, 2)]"
proof -
  have h1: "length [1, 0 :: int] = length (shape demo_mat)" by (simp add: demo_fields)
  have h2: "length (shard_sizes demo_mat) = length (shape demo_mat)" by (simp add: demo_fields)
  have "[0 ..< 2] = [0, 1]" by (simp add: upt_rec)
  then show ?thesis
    using h1 h2 block_idx_to_real_idx_total [OF h1 h2] by (simp add: demo_fields)
qed

text \<open>
  The claim as written fails: block index (2, 0) of the 4 by 4 matrix starts at element
  4 of an axis of length 4, and the range \<open>(4, 4)\<close> is returned; \<^verbatim>\<open>get_block_async\<close> then
  looks the key of that range up and reports a missing key, not an index error.
\<close>

theorem block_idx_to_real_idx_empty_range:
  "block_idx_to_real_idx demo_mat [2, 0] = Inr [(4, 4), (0, 2)]
   \<and> fst (get_block_async demo_mat [2, 0] s3_empty)
       = Inl (Exception ''Key does {0} not exist, and no parent function prescripted'')"
  by (simp add: real_20 get_block_async_def key_20 key_exists_async_def s3_empty_def demo_fields)


section \<open>Reads from the object store\<close>

lemma s3_read_loop_once:
  "s3_read_loop bkt k None 0 s =
     (case get_object bkt k s of
        (Inl e, s') \<Rightarrow> (Inl e, s')
      | (Inr b, s') \<Rightarrow> (Inr (Some b), s'))"
proof -
  have fin: "\<And>b s'. s3_read_loop bkt k (Some b) 0 s' = (Inr (Some b), s')"
    by (subst s3_read_loop.simps) simp
  show ?thesis
    by (subst s3_read_loop.simps) (simp add: max_n_tries_def fin split: prod.splits sum.splits)
qed

lemma s3_key_to_byte_io_once: "s3_key_to_byte_io m k s = get_object (bucket m) k s"
  by (simp add: s3_key_to_byte_io_def s3_read_loop_once split: prod.splits sum.splits)

lemma get_object_oplog: "oplog (snd (get_object bkt k s)) = oplog s @ [OpGet k]"
  by (simp add: get_object_def serve_get_def Let_def split: list.splits option.splits)

text \<open>
  Claim C3 (a defect of the code).  The bucket holds block (0, 0) and the first
  \<^verbatim>\<open>get_object\<close> fails with a timeout.  \<^verbatim>\<open>get_block_async\<close> makes that one request and
  surfaces its exception: the handler re-raises before \<^verbatim>\<open>n_tries\<close> is incremented, so
  the loop never asks again, although the very next request would be served.
\<close>

theorem get_block_no_retry:
  "get_block_async demo_mat [0, 0] flaky_store =
     (Inl (ClientError ''RequestTimeout''),
      flaky_store\<lparr> get_faults := [],
                   oplog := [OpExists ''numpywren.objects/A/0_2_2_0_2_2_'',
                             OpGet ''numpywren.objects/A/0_2_2_0_2_2_''] \<rparr>)
   \<and> fst (get_block_async demo_mat [0, 0] (snd (get_block_async demo_mat [0, 0] flaky_store)))
       = Inr (const_block [2, 2] 7)"
proof -
  have first: "get_block_async demo_mat [0, 0] flaky_store =
     (Inl (ClientError ''RequestTimeout''),
      flaky_store\<lparr> get_faults := [],
                   oplog := [OpExists ''numpywren.objects/A/0_2_2_0_2_2_'',
                             OpGet ''numpywren.objects/A/0_2_2_0_2_2_''] \<rparr>)"
    by (simp add: get_block_async_def key_00 key_exists_async_def s3_key_to_byte_io_once
        get_object_def flaky_store_def demo_fields Let_def)
  have again: "fst (get_block_async demo_mat [0, 0]
      (flaky_store\<lparr> get_faults := [],
                   oplog := [OpExists ''numpywren.objects/A/0_2_2_0_2_2_'',
                             OpGet ''numpywren.objects/A/0_2_2_0_2_2_''] \<rparr>))
    = Inr (const_block [2, 2] 7)"
    by (simp add: get_block_async_def key_00 key_exists_async_def s3_key_to_byte_io_once
        get_object_def serve_get_def flaky_store_def demo_fields Let_def)
  show ?thesis using first again by simp
qed

text \<open>
  The same for every matrix, key and store: a failing first request is the result of
  \<^verbatim>\<open>__s3_key_to_byte_io__\<close>, after exactly one \<^verbatim>\<open>get_object\<close>.
\<close>

lemma s3_key_to_byte_io_fault:
  "get_faults s = Some e # rest \<Longrightarrow>
   s3_key_to_byte_io m k s = (Inl e, s\<lparr> oplog := oplog s @ [OpGet k], get_faults := rest \<rparr>)"
  by (simp add: s3_key_to_byte_io_once get_object_def Let_def)

section \<open>Symmetric storage\<close>

lemma symmetrize_idx_cons:
  "symmetrize_idx (a # rest) = Inr (if a > last (a # rest) then a # rest else rev (a # rest))"
  by (simp add: symmetrize_idx_def py_getitem_def nth_Cons' last_conv_nth nat_add_distrib)

lemma symmetrize_idx_2: "symmetrize_idx [i, j] = Inr [max i j, min i j]"
  by (auto simp add: symmetrize_idx_def py_getitem_def)

lemma sym_get_state:
  "snd (sym_get_block_async m [i, j] s) =
     (case shard_idx_to_key m [max i j, min i j] of
        Inl e \<Rightarrow> s
      | Inr k \<Rightarrow>
          (if objects s (bucket m, k) = None then s\<lparr> oplog := oplog s @ [OpExists k] \<rparr>
           else snd (get_object (bucket m) k (s\<lparr> oplog := oplog s @ [OpExists k] \<rparr>))))"
  by (simp add: sym_get_block_async_def symmetrize_idx_2 key_exists_async_def
      s3_key_to_byte_io_once Let_def split: sum.splits prod.splits option.splits bool.splits)

text \<open>
  Claim C1, as amended.  \<^verbatim>\<open>_symmetrize_idx\<close> returns a non-empty index unchanged when
  its first axis value is greater than its last, and reversed otherwise; a 2-D index
  \<open>(i, j)\<close> and its mirror \<open>(j, i)\<close> both become \<open>(max i j, min i j)\<close>, the block of the
  lower triangle.  \<^verbatim>\<open>get_block_async\<close> asks the store only about the key of that index
  (the existence check, then the fetch when the object exists).
\<close>

theorem symmetrize_idx_lower_triangle:
  "symmetrize_idx (a # rest) = Inr (if a > last (a # rest) then a # rest else rev (a # rest))
   \<and> symmetrize_idx [i, j] = Inr [max i j, min i j]
   \<and> symmetrize_idx [j, i] = symmetrize_idx [i, j]
   \<and> snd (sym_get_block_async m [i, j] s) =
       (case shard_idx_to_key m [max i j, min i j] of
          Inl e \<Rightarrow> s
        | Inr k \<Rightarrow>
            (if objects s (bucket m, k) = None then s\<lparr> oplog := oplog s @ [OpExists k] \<rparr>
             else snd (get_object (bucket m) k (s\<lparr> oplog := oplog s @ [OpExists k] \<rparr>))))
   \<and> snd (sym_get_block_async m [j, i] s) = snd (sym_get_block_async m [i, j] s)"
proof -
  have mm: "max j i = max i j" "min j i = min i j" by (simp_all add: max.commute min.commute)
  have mirror: "symmetrize_idx [j, i] = symmetrize_idx [i, j]"
    by (simp add: symmetrize_idx_2 mm)
  have gs: "snd (sym_get_block_async m [j, i] s) = snd (sym_get_block_async m [i, j] s)"
    by (simp only: sym_get_state mm)
  show ?thesis
    using symmetrize_idx_cons [of a rest] symmetrize_idx_2 [of i j] mirror
      sym_get_state [of m i j s] gs
    by (simp only: simp_thms)
qed

text \<open>
  The claim as written fails: the index (0, 1) has first value 0, not greater than its
  last value 1, and it is not returned unchanged but reversed.
\<close>

theorem symmetrize_idx_upper_reversed: "symmetrize_idx [0, 1] = Inr [1, 0]"
  by (simp add: symmetrize_idx_2)

text \<open>
  Claim C2 (a defect of the code).  \<^verbatim>\<open>put_block_async\<close> of the symmetric matrix, asked
  to store a block at (0, 1), canonicalizes to (1, 0), transposes the block and checks
  its shape against the range of (1, 0), and then computes the key from the requested
  index (0, 1), not from the canonical one.  The transposed block lands under the key
  of (0, 1); \<^verbatim>\<open>get_block_async\<close> of either mirror index reads the key of (1, 0) and finds
  nothing.
\<close>

theorem sym_put_writes_requested_key:
  "sym_put_block_async demo_mat allclose (const_block [2, 2] 7) [0, 1] False s3_empty =
     (Inr (), put_object ''bkt'' ''numpywren.objects/A/0_2_2_2_4_2_''
                (nd_T (const_block [2, 2] 7)) s3_empty)
   \<and> symmetrize_idx [0, 1] = Inr [1, 0]
   \<and> shard_idx_to_key demo_mat [1, 0] = Inr ''numpywren.objects/A/2_4_2_0_2_2_''
   \<and> fst (sym_get_block_async demo_mat [0, 1]
            (snd (sym_put_block_async demo_mat allclose (const_block [2, 2] 7) [0, 1] False s3_empty)))
       = Inl (Exception ''Key numpywren.objects/A/2_4_2_0_2_2_ does not exist, and no parent function prescripted'')
   \<and> fst (sym_get_block_async demo_mat [1, 0]
            (snd (sym_put_block_async demo_mat allclose (const_block [2, 2] 7) [0, 1] False s3_empty)))
       = Inl (Exception ''Key numpywren.objects/A/2_4_2_0_2_2_ does not exist, and no parent function prescripted'')"
proof -
  have put: "sym_put_block_async demo_mat allclose (const_block [2, 2] 7) [0, 1] False s3_empty =
     (Inr (), put_object ''bkt'' ''numpywren.objects/A/0_2_2_2_4_2_''
                (nd_T (const_block [2, 2] 7)) s3_empty)"
    by (simp add: sym_put_block_async_def symmetrize_idx_2 real_10 key_01 current_shape_of_def
        nd_T_def const_block_def save_matrix_to_s3_def demo_fields)
  have g01: "fst (sym_get_block_async demo_mat [0, 1]
          (put_object ''bkt'' ''numpywren.objects/A/0_2_2_2_4_2_'' (nd_T (const_block [2, 2] 7)) s3_empty))
     = Inl (Exception ''Key numpywren.objects/A/2_4_2_0_2_2_ does not exist, and no parent function prescripted'')"
    by (simp add: sym_get_block_async_def symmetrize_idx_2 key_10 key_exists_async_def
        put_object_def s3_empty_def demo_fields)
  have g10: "fst (sym_get_block_async demo_mat [1, 0]
          (put_object ''bkt'' ''numpywren.objects/A/0_2_2_2_4_2_'' (nd_T (const_block [2, 2] 7)) s3_empty))
     = Inl (Exception ''Key numpywren.objects/A/2_4_2_0_2_2_ does not exist, and no parent function prescripted'')"
    by (simp add: sym_get_block_async_def symmetrize_idx_2 key_10 key_exists_async_def
        put_object_def s3_empty_def demo_fields)
  show ?thesis using put g01 g10 by (simp add: symmetrize_idx_2 key_10)
qed

text \<open>
  Claim C10.  With \<^verbatim>\<open>no_overwrite=True\<close> the first statement that runs reads the local
  \<^verbatim>\<open>key\<close>, which is assigned only at the end of the function: for every matrix, block,
  index and store the call raises \<^verbatim>\<open>UnboundLocalError\<close> and the store is what it was,
  without any request made (no existence check, no fetch for the comparison, no write).
\<close>

theorem sym_put_no_overwrite_unbound_key:
  "sym_put_block_async m allclose block block_idx True s = (Inl (UnboundLocalError ''key''), s)"
  by (simp add: sym_put_block_async_def read_local_def)


section \<open>The bounded recent cache\<close>

lemma remove1_last_distinct: "distinct xs \<Longrightarrow> xs \<noteq> [] \<Longrightarrow> remove1 (last xs) xs = butlast xs"
proof (induction xs)
  case Nil
  then show ?case by simp
next
  case (Cons a xs)
  show ?case
  proof (cases "xs = []")
    case True
    then show ?thesis by simp
  next
    case False
    then have "last xs \<in> set xs" by simp
    then have "a \<noteq> last xs" using Cons.prems(1) by auto
    then show ?thesis using Cons False by simp
  qed
qed

lemma mark_evict:
  assumes "distinct ko" "k \<notin> set ko" "int (length ko) = n" "m k = Some v" "set ko \<subseteq> dom m"
  shows "mark \<lparr> cache = m, key_order = ko, max_items = n \<rparr> k =
         (Inr (), \<lparr> cache = m(last (k # ko) := None), key_order = butlast (k # ko), max_items = n \<rparr>)"
proof -
  have len: "length ko < length (k # ko)" by simp
  have nth: "(k # ko) ! length ko = last (k # ko)"
    by (metis last_conv_nth length_Cons diff_Suc_1 list.discI)
  have g: "py_getitem (k # ko) n = Inr (last (k # ko))"
    using py_getitem_nth[OF len] nth assms(3) by simp
  have d: "distinct (k # ko)" using assms by simp
  have inm: "m (last (k # ko)) \<noteq> None"
    using assms(4,5) by (cases "ko = []") (auto simp: subset_iff dom_def)
  have r: "remove1 (last (k # ko)) (k # ko) = butlast (k # ko)"
    using remove1_last_distinct[OF d] by simp
  show ?thesis
    using assms(2,3) g inm r
    by (auto simp add: mark_def Let_def simp del: remove1.simps butlast.simps last.simps)
qed

lemma mark_keep:
  assumes "int (length (remove1 k ko)) < n"
  shows "mark \<lparr> cache = m, key_order = ko, max_items = n \<rparr> k =
         (Inr (), \<lparr> cache = m, key_order = k # remove1 k ko, max_items = n \<rparr>)"
  using assms by (auto simp add: mark_def Let_def remove1_idem)


lemma setitem_evict:
  assumes "lru_inv c" "k \<notin> set (key_order c)" "int (length (key_order c)) = max_items c"
  shows "setitem c k v =
         (Inr (), c\<lparr> cache := ((cache c)(k \<mapsto> v))(last (k # key_order c) := None),
                     key_order := butlast (k # key_order c) \<rparr>)"
proof (cases c)
  case (fields m ko n)
  have "mark \<lparr> cache = m(k \<mapsto> v), key_order = ko, max_items = n \<rparr> k =
        (Inr (), \<lparr> cache = (m(k \<mapsto> v))(last (k # ko) := None), key_order = butlast (k # ko), max_items = n \<rparr>)"
    using assms fields by (intro mark_evict) (auto simp: lru_inv_def)
  then show ?thesis using fields by (simp add: setitem_def)
qed


lemma length_remove1_int:
  "int (length (remove1 k ko)) = (if k \<in> set ko then int (length ko) - 1 else int (length ko))"
proof (cases "k \<in> set ko")
  case True
  then have "Suc 0 \<le> length ko" by (cases ko) simp_all
  then have "int (length ko - Suc 0) = int (length ko) - 1" by (simp add: of_nat_diff)
  then show ?thesis using True by (simp add: length_remove1)
next
  case False
  then show ?thesis by (simp add: remove1_idem)
qed

lemma setitem_keep:
  assumes "lru_inv c" "k \<in> set (key_order c) \<or> int (length (key_order c)) < max_items c"
  shows "setitem c k v =
         (Inr (), c\<lparr> cache := (cache c)(k \<mapsto> v), key_order := k # remove1 k (key_order c) \<rparr>)"
proof (cases c)
  case (fields m ko n)
  have "int (length (remove1 k ko)) < n"
    using assms fields by (auto simp: lru_inv_def length_remove1_int)
  then have "mark \<lparr> cache = m(k \<mapsto> v), key_order = ko, max_items = n \<rparr> k =
        (Inr (), \<lparr> cache = m(k \<mapsto> v), key_order = k # remove1 k ko, max_items = n \<rparr>)"
    by (rule mark_keep)
  then show ?thesis using fields by (simp add: setitem_def)
qed

lemma getitem_hit:
  assumes "lru_inv c" "cache c k = Some v"
  shows "getitem c k = (Inr v, c\<lparr> key_order := k # remove1 k (key_order c) \<rparr>)"
proof (cases c)
  case (fields m ko n)
  have kin: "k \<in> set ko" using assms fields by (auto simp: lru_inv_def)
  have "int (length (remove1 k ko)) < n"
    using assms fields kin by (auto simp: lru_inv_def length_remove1_int)
  then have "mark \<lparr> cache = m, key_order = ko, max_items = n \<rparr> k =
        (Inr (), \<lparr> cache = m, key_order = k # remove1 k ko, max_items = n \<rparr>)"
    by (rule mark_keep)
  then show ?thesis using fields assms by (simp add: getitem_def)
qed

lemma getitem_miss: "cache c k = None \<Longrightarrow> getitem c k = (Inl KeyError, c)"
  by (simp add: getitem_def)

lemma set_butlast_distinct:
  assumes "distinct xs" "xs \<noteq> []"
  shows "set (butlast xs) = set xs - {last xs}"
proof -
  have eq: "butlast xs @ [last xs] = xs" using assms(2) by simp
  have "distinct (butlast xs @ [last xs])" using assms(1) eq by simp
  then have notin: "last xs \<notin> set (butlast xs)" by simp
  have "set xs = set (butlast xs) \<union> {last xs}"
    using eq by (metis set_append list.simps(15) empty_set)
  then show ?thesis using notin by auto
qed

lemma lru_inv_evict:
  assumes "lru_inv c" "k \<notin> set (key_order c)" "int (length (key_order c)) = max_items c"
  shows "lru_inv (c\<lparr> cache := ((cache c)(k \<mapsto> v))(last (k # key_order c) := None),
                     key_order := butlast (k # key_order c) \<rparr>)"
proof -
  let ?ko = "k # key_order c"
  have d: "distinct ?ko" using assms by (simp add: lru_inv_def)
  have s: "set (butlast ?ko) = set ?ko - {last ?ko}"
    using set_butlast_distinct[OF d] by simp
  have dm: "dom (((cache c)(k \<mapsto> v))(last ?ko := None)) = insert k (dom (cache c)) - {last ?ko}"
    by auto
  have "distinct (butlast ?ko)" using d by (rule distinct_butlast)
  moreover have "set (butlast ?ko) = dom (((cache c)(k \<mapsto> v))(last ?ko := None))"
    using s dm assms(1) by (simp add: lru_inv_def)
  moreover have "int (length (butlast ?ko)) \<le> max_items c"
    using assms(3) by simp
  ultimately show ?thesis by (simp add: lru_inv_def del: butlast.simps last.simps)
qed

lemma lru_inv_keep:
  assumes "lru_inv c" "k \<in> set (key_order c) \<or> int (length (key_order c)) < max_items c"
  shows "lru_inv (c\<lparr> cache := (cache c)(k \<mapsto> v), key_order := k # remove1 k (key_order c) \<rparr>)"
  using assms by (auto simp: lru_inv_def length_remove1_int)

lemma lru_inv_touch:
  assumes "lru_inv c" "cache c k = Some v"
  shows "lru_inv (c\<lparr> key_order := k # remove1 k (key_order c) \<rparr>)"
proof -
  have "k \<in> set (key_order c)" using assms by (auto simp: lru_inv_def)
  then show ?thesis using assms(1) by (auto simp: lru_inv_def length_remove1_int)
qed

lemma lru_inv_size: "lru_inv c \<Longrightarrow> int (card (dom (cache c))) \<le> max_items c"
  by (metis lru_inv_def distinct_card)

lemma lru_inv_init: "0 \<le> n \<Longrightarrow> lru_inv (LRUCache n)"
  by (simp add: lru_inv_def LRUCache_def)


lemma lru_ab_eval:
  "key_order lru_ab = [''B'', ''A'']" "cache lru_ab ''A'' = Some 1" "cache lru_ab ''B'' = Some 2"
  "max_items lru_ab = 2" "dom (cache lru_ab) = {''A'', ''B''}"
  by (auto simp add: lru_ab_def setitem_def mark_def LRUCache_def py_getitem_def Let_def)

lemma lru_abc_eval:
  "key_order lru_abc = [''C'', ''B'']" "cache lru_abc ''A'' = None" "cache lru_abc ''B'' = Some 2"
  "cache lru_abc ''C'' = Some 3"
  by (simp_all add: lru_abc_def lru_ab_def setitem_def mark_def LRUCache_def py_getitem_def Let_def)

lemma lru_abc_b_d_eval:
  "key_order lru_abc_b_d = [''D'', ''B'']" "cache lru_abc_b_d ''C'' = None"
  "cache lru_abc_b_d ''B'' = Some 2" "cache lru_abc_b_d ''D'' = Some 4"
  by (simp_all add: lru_abc_b_d_def lru_abc_def lru_ab_def setitem_def getitem_def mark_def
      LRUCache_def py_getitem_def Let_def)

text \<open>
  Claim C8, as amended.  For a cache of capacity \<open>N \<ge> 1\<close> in a state that satisfies the
  representation invariant (the new cache does, and both operations keep it): the size
  is at most \<open>N\<close>; a put completes, stores the value and leaves the key first in
  \<^verbatim>\<open>key_order\<close>, and when the key is new and the cache is full it removes exactly the last
  key of \<^verbatim>\<open>key_order\<close>, the least recently used one, and nothing else; a get of a stored
  key returns its value and moves the key to the front, a get of an absent key raises
  \<^verbatim>\<open>KeyError\<close> and changes nothing.  With capacity 2, inserting A, B, C evicts A, and
  reading B before inserting D evicts C and keeps B.
\<close>

theorem lru_contract:
  assumes "lru_inv (c :: ('k, 'v) lrucache)" and "1 \<le> max_items c"
  shows "int (card (dom (cache c))) \<le> max_items c
   \<and> setitem c k v =
       (Inr (),
        if k \<notin> set (key_order c) \<and> int (length (key_order c)) = max_items c
        then c\<lparr> cache := ((cache c)(k \<mapsto> v))(last (key_order c) := None),
                key_order := k # butlast (key_order c) \<rparr>
        else c\<lparr> cache := (cache c)(k \<mapsto> v), key_order := k # remove1 k (key_order c) \<rparr>)
   \<and> lru_inv (snd (setitem c k v))
   \<and> hd (key_order (snd (setitem c k v))) = k
   \<and> cache (snd (setitem c k v)) k = Some v
   \<and> getitem c k =
       (case cache c k of
          None \<Rightarrow> (Inl KeyError, c)
        | Some x \<Rightarrow> (Inr x, c\<lparr> key_order := k # remove1 k (key_order c) \<rparr>))
   \<and> lru_inv (snd (getitem c k))
   \<and> lru_inv (LRUCache (max_items c) :: ('k, 'v) lrucache)
   \<and> key_order lru_abc = [''C'', ''B''] \<and> cache lru_abc ''A'' = None
   \<and> key_order lru_abc_b_d = [''D'', ''B''] \<and> cache lru_abc_b_d ''C'' = None
   \<and> cache lru_abc_b_d ''B'' = Some 2"
proof -
  have size: "int (card (dom (cache c))) \<le> max_items c" using assms(1) by (rule lru_inv_size)
  have init: "lru_inv (LRUCache (max_items c) :: ('k, 'v) lrucache)"
    using assms(2) by (intro lru_inv_init) simp
  note ex = lru_abc_eval(1,2) lru_abc_b_d_eval(1,2,3)
  show ?thesis
  proof (cases "k \<notin> set (key_order c) \<and> int (length (key_order c)) = max_items c")
    case True
    then have ne: "key_order c \<noteq> []" using assms(2) by auto
    have eq: "last (k # key_order c) = last (key_order c)"
         "butlast (k # key_order c) = k # butlast (key_order c)" using ne by simp_all
    have kl: "k \<noteq> last (key_order c)" using True ne last_in_set by metis
    have put: "setitem c k v = (Inr (), c\<lparr> cache := ((cache c)(k \<mapsto> v))(last (key_order c) := None),
                key_order := k # butlast (key_order c) \<rparr>)"
      using setitem_evict [of c k v] assms(1) True eq by simp
    have inv: "lru_inv (c\<lparr> cache := ((cache c)(k \<mapsto> v))(last (key_order c) := None),
                key_order := k # butlast (key_order c) \<rparr>)"
      using lru_inv_evict [of c k v] assms(1) True eq by simp
    have kn: "cache c k = None" using True assms(1) by (auto simp: lru_inv_def)
    show ?thesis unfolding if_P [OF True] using size put inv kl kn assms(1) init ex
      by (simp add: getitem_miss)
  next
    case False
    then have keep: "k \<in> set (key_order c) \<or> int (length (key_order c)) < max_items c"
      using assms(1) by (auto simp: lru_inv_def)
    have put: "setitem c k v =
         (Inr (), c\<lparr> cache := (cache c)(k \<mapsto> v), key_order := k # remove1 k (key_order c) \<rparr>)"
      using setitem_keep [OF assms(1) keep] .
    have inv: "lru_inv (c\<lparr> cache := (cache c)(k \<mapsto> v), key_order := k # remove1 k (key_order c) \<rparr>)"
      using lru_inv_keep [OF assms(1) keep] .
    have get: "getitem c k =
       (case cache c k of
          None \<Rightarrow> (Inl KeyError, c)
        | Some x \<Rightarrow> (Inr x, c\<lparr> key_order := k # remove1 k (key_order c) \<rparr>))"
      using getitem_hit [OF assms(1)] getitem_miss by (cases "cache c k") auto
    have ginv: "lru_inv (snd (getitem c k))"
      using get lru_inv_touch [OF assms(1)] assms(1) by (cases "cache c k") auto
    show ?thesis unfolding if_not_P [OF False] using size put inv get ginv init ex by simp
  qed
qed

theorem lru_contract_witness:
  "lru_inv lru_ab \<and> 1 \<le> max_items lru_ab
   \<and> int (card (dom (cache lru_ab))) \<le> 2
   \<and> lru_inv (snd (setitem lru_ab ''C'' 3))
   \<and> hd (key_order (snd (setitem lru_ab ''C'' 3))) = ''C''
   \<and> getitem lru_ab ''Z'' = (Inl KeyError, lru_ab)"
proof -
  have h1: "lru_inv lru_ab" by (auto simp add: lru_inv_def lru_ab_eval)
  have h2: "1 \<le> max_items lru_ab" by (simp add: lru_ab_eval)
  have z: "cache lru_ab ''Z'' = None"
    by (simp add: lru_ab_def setitem_def mark_def LRUCache_def py_getitem_def Let_def)
  have c1: "int (card (dom (cache lru_ab))) \<le> 2"
    using lru_contract [OF h1 h2, of "''C''" 3] by (simp add: lru_ab_eval(4))
  have c2: "lru_inv (snd (setitem lru_ab ''C'' 3))"
    using lru_contract [OF h1 h2, of "''C''" 3] by blast
  have c3: "hd (key_order (snd (setitem lru_ab ''C'' 3))) = ''C''"
    using lru_contract [OF h1 h2, of "''C''" 3] by blast
  have c4: "getitem lru_ab ''Z'' = (Inl KeyError, lru_ab)"
    using lru_contract [OF h1 h2, of "''Z''" 0] by (simp add: z)
  show ?thesis using h1 h2 c1 c2 c3 c4 by blast
qed

text \<open>
  The claim as written fails for capacity 0: the put completes, and the key it was given
  is not in most-recently-used position but gone, evicted by its own insertion.
\<close>

theorem lru_capacity_zero:
  "fst (setitem (LRUCache 0) ''A'' (1::nat)) = Inr ()
   \<and> key_order (snd (setitem (LRUCache 0) ''A'' (1::nat))) = []
   \<and> cache (snd (setitem (LRUCache 0) ''A'' (1::nat))) ''A'' = None"
  by (simp add: setitem_def mark_def LRUCache_def py_getitem_def Let_def)


section \<open>The instruction executor\<close>

lemma exec_instrs_ok:
  "exec_instrs pc instrs k w tr = (Inr u, w', tr') \<Longrightarrow>
   tr' = tr @ map (EvInstr pc) [k ..< k + length instrs]"
proof (induction instrs arbitrary: k w tr)
  case Nil
  then show ?case by simp
next
  case (Cons instr rest)
  obtain r w1 where iw: "instr w = (r, w1)" by (cases "instr w")
  show ?case
  proof (cases r)
    case (Inl e)
    then show ?thesis using Cons.prems iw by simp
  next
    case (Inr u1)
    then have "exec_instrs pc rest (Suc k) w1 (tr @ [EvInstr pc k]) = (Inr u, w', tr')"
      using Cons.prems iw by simp
    then have "tr' = (tr @ [EvInstr pc k]) @ map (EvInstr pc) [Suc k ..< Suc k + length rest]"
      by (rule Cons.IH)
    moreover have "[k ..< k + length (instr # rest)] = k # [Suc k ..< Suc k + length rest]"
      by (simp del: upt_Suc add: upt_conv_Cons)
    ultimately show ?thesis by (simp del: upt_Suc length_Cons list.size)
  qed
qed


lemma run_block_ok:
  assumes "run_block P pc w tr = (Inr nxt, w', tr')"
  shows "tr' = tr @ spec_block_events P pc"
proof -
  obtain r0 w1 where pre: "pre_op P pc w = (r0, w1)" by (cases "pre_op P pc w")
  from assms pre obtain u0 where r0: "r0 = Inr u0"
    by (cases r0) (simp_all add: run_block_def)
  from assms pre r0 obtain instrs where blk: "inst_blocks P pc = Some instrs"
    by (cases "inst_blocks P pc") (simp_all add: run_block_def)
  obtain r1 w2 tr2 where tb: "try_body P pc instrs w1 (tr @ [EvPreOp pc]) = (r1, w2, tr2)"
    by (cases "try_body P pc instrs w1 (tr @ [EvPreOp pc])")
  have r1: "r1 = Inr nxt \<and> tr2 = tr'"
    using assms pre r0 blk tb
    by (cases r1) (simp_all add: run_block_def Let_def split: prod.splits sum.splits)
  obtain r2 w3 tr3 where ex: "exec_instrs pc instrs 0 w1 (tr @ [EvPreOp pc]) = (r2, w3, tr3)"
    by (cases "exec_instrs pc instrs 0 w1 (tr @ [EvPreOp pc])")
  from tb r1 ex obtain u2 where r2: "r2 = Inr u2"
    by (cases r2) (simp_all add: try_body_def)
  have tr3: "tr3 = (tr @ [EvPreOp pc]) @ map (EvInstr pc) [0 ..< 0 + length instrs]"
    using ex r2 exec_instrs_ok [of pc instrs 0 w1 "tr @ [EvPreOp pc]" u2 w3 tr3] by simp
  have "tr2 = tr3 @ [EvPostOp pc SUCCESS None]"
    using tb ex r2 r1 by (simp add: try_body_def split: prod.splits sum.splits)
  then show ?thesis using tr3 r1 blk by (simp add: spec_block_events_def)
qed

lemma run_loop_chain:
  assumes "run_loop fuel P pcs i w tr = Some (Inr u, w', tr', pcs')" and "i \<le> length pcs"
  shows "take (length pcs) pcs' = pcs \<and> tr' = tr @ concat (map (spec_block_events P) (drop i pcs'))"
  using assms
proof (induction fuel arbitrary: pcs i w tr)
  case 0
  then show ?case by simp
next
  case (Suc fuel)
  show ?case
  proof (cases "i < length pcs")
    case False
    then have "pcs' = pcs \<and> tr' = tr \<and> i = length pcs" using Suc.prems by simp
    then show ?thesis by simp
  next
    case True
    obtain r w1 tr1 where rb: "run_block P (pcs ! i) w tr = (r, w1, tr1)"
      by (cases "run_block P (pcs ! i) w tr")
    from Suc.prems(1) True rb obtain nxt where r: "r = Inr nxt"
      by (cases r) simp_all
    let ?pcs2 = "case nxt of None \<Rightarrow> pcs | Some n \<Rightarrow> pcs @ [n]"
    have rec: "run_loop fuel P ?pcs2 (Suc i) w1 tr1 = Some (Inr u, w', tr', pcs')"
      using Suc.prems(1) True rb r by simp
    have len: "Suc i \<le> length ?pcs2" using True by (cases nxt) simp_all
    have ih: "take (length ?pcs2) pcs' = ?pcs2
              \<and> tr' = tr1 @ concat (map (spec_block_events P) (drop (Suc i) pcs'))"
      using Suc.IH [OF rec len] .
    have pre: "take (length pcs) ?pcs2 = pcs" by (cases nxt) simp_all
    have tk: "take (length pcs) pcs' = pcs"
    proof -
      have "take (length pcs) (take (length ?pcs2) pcs') = take (length pcs) ?pcs2"
        using ih by simp
      moreover have "length pcs \<le> length ?pcs2" by (cases nxt) simp_all
      ultimately show ?thesis using pre by (simp add: min_def)
    qed
    have ilen: "i < length pcs'"
      using tk True by (metis length_take min_less_iff_conj)
    have nth: "pcs' ! i = pcs ! i"
      using tk True by (metis nth_take)
    have dr: "drop i pcs' = pcs ! i # drop (Suc i) pcs'"
      using ilen nth by (metis Cons_nth_drop_Suc)
    have t1: "tr1 = tr @ spec_block_events P (pcs ! i)"
      using rb r run_block_ok [of P "pcs ! i" w tr nxt w1 tr1] by simp
    show ?thesis using tk ih t1 dr by simp
  qed
qed

lemma run_loop_more_fuel:
  "run_loop fuel P pcs i w tr = Some r \<Longrightarrow> run_loop (fuel + n) P pcs i w tr = Some r"
proof (induction fuel arbitrary: pcs i w tr)
  case 0
  then show ?case by simp
next
  case (Suc fuel)
  show ?case
  proof (cases "i < length pcs")
    case False
    then show ?thesis using Suc.prems by simp
  next
    case True
    obtain r1 w1 tr1 where rb: "run_block P (pcs ! i) w tr = (r1, w1, tr1)"
      by (cases "run_block P (pcs ! i) w tr")
    show ?thesis
    proof (cases r1)
      case (Inl e)
      then show ?thesis using Suc.prems True rb by simp
    next
      case (Inr nxt)
      then have "run_loop fuel P (case nxt of None \<Rightarrow> pcs | Some n \<Rightarrow> pcs @ [n]) (Suc i) w1 tr1 = Some r"
        using Suc.prems True rb by simp
      then have "run_loop (fuel + n) P (case nxt of None \<Rightarrow> pcs | Some n \<Rightarrow> pcs @ [n]) (Suc i) w1 tr1 = Some r"
        by (rule Suc.IH)
      then show ?thesis using True rb Inr by simp
    qed
  qed
qed


lemma chain_block_1:
  "run_block chain_prog 1 0 [] =
     (Inr (Some 5), 1, [EvPreOp 1, EvInstr 1 0, EvInstr 1 1, EvPostOp 1 SUCCESS None])"
  by (simp add: run_block_def try_body_def chain_prog_def ok_instr_def)

lemma chain_block_5:
  "run_block chain_prog 5 (Suc w) tr =
     (Inr None, Suc (Suc w), tr @ [EvPreOp 5, EvInstr 5 0, EvPostOp 5 SUCCESS None])"
  by (simp add: run_block_def try_body_def chain_prog_def ok_instr_def)

lemma chain_run_3:
  "run_loop (Suc (Suc (Suc 0))) chain_prog [1] 0 0 [] =
     Some (Inr (), 2, [EvPreOp 1, EvInstr 1 0, EvInstr 1 1, EvPostOp 1 SUCCESS None,
                       EvPreOp 5, EvInstr 5 0, EvPostOp 5 SUCCESS None], [1, 5])"
  by (simp add: chain_block_1 chain_block_5)

lemma chain_run:
  "run (3 + n) chain_prog 1 0 =
     Some (Inr (), 2, [EvPreOp 1, EvInstr 1 0, EvInstr 1 1, EvPostOp 1 SUCCESS None,
                       EvPreOp 5, EvInstr 5 0, EvPostOp 5 SUCCESS None], [1, 5])"
  unfolding run_def numeral_3_eq_3 by (rule run_loop_more_fuel [OF chain_run_3])




lemma exec_instrs_of_seq:
  "spec_seq instrs w w' \<Longrightarrow>
   exec_instrs pc instrs k w tr = (Inr (), w', tr @ map (EvInstr pc) [k ..< k + length instrs])"
proof (induction instrs w w' arbitrary: k tr rule: spec_seq.induct)
  case (seq_nil w)
  show ?case by simp
next
  case (seq_cons instr w u w1 rest w2)
  have up: "[k ..< k + length (instr # rest)] = k # [Suc k ..< Suc k + length rest]"
    by (simp del: upt_Suc add: upt_conv_Cons)
  have "exec_instrs pc (instr # rest) k w tr = exec_instrs pc rest (Suc k) w1 (tr @ [EvInstr pc k])"
    using seq_cons.hyps(1) by simp
  also have "\<dots> = (Inr (), w2, (tr @ [EvInstr pc k]) @ map (EvInstr pc) [Suc k ..< Suc k + length rest])"
    by (rule seq_cons.IH)
  finally show ?case by (simp only: up list.map append_assoc append_Cons append_Nil)
qed

lemma seq_of_exec_instrs:
  "exec_instrs pc instrs k w tr = (Inr u, w', tr') \<Longrightarrow> spec_seq instrs w w'"
proof (induction instrs arbitrary: k w tr)
  case Nil
  then show ?case by (simp add: seq_nil)
next
  case (Cons instr rest)
  obtain r w1 where iw: "instr w = (r, w1)" by (cases "instr w")
  show ?case
  proof (cases r)
    case (Inl e)
    then show ?thesis using Cons.prems iw by simp
  next
    case (Inr u1)
    then have "exec_instrs pc rest (Suc k) w1 (tr @ [EvInstr pc k]) = (Inr u, w', tr')"
      using Cons.prems iw by simp
    then have "spec_seq rest w1 w'" by (rule Cons.IH)
    then show ?thesis using iw Inr seq_cons [of instr w u1 w1 rest w'] by simp
  qed
qed

lemma run_block_of_turn:
  assumes "spec_turn P pc w nxt w3"
  shows "run_block P pc w tr = (Inr nxt, w3, tr @ spec_block_events P pc)"
  using assms
proof (cases rule: spec_turn.cases)
  case (turn u w1 instrs w2)
  have ex: "exec_instrs pc instrs 0 w1 (tr @ [EvPreOp pc]) =
        (Inr (), w2, (tr @ [EvPreOp pc]) @ map (EvInstr pc) [0 ..< 0 + length instrs])"
    using turn(3) by (rule exec_instrs_of_seq)
  show ?thesis
    using turn(1,2,4) ex by (simp add: run_block_def try_body_def spec_block_events_def)
qed

lemma turn_of_run_block:
  assumes "run_block P pc w tr = (Inr nxt, w', tr')"
  shows "spec_turn P pc w nxt w'"
proof -
  obtain r0 w1 where pre: "pre_op P pc w = (r0, w1)" by (cases "pre_op P pc w")
  from assms pre obtain u0 where r0: "r0 = Inr u0"
    by (cases r0) (simp_all add: run_block_def)
  from assms pre r0 obtain instrs where blk: "inst_blocks P pc = Some instrs"
    by (cases "inst_blocks P pc") (simp_all add: run_block_def)
  obtain r1 w2 tr2 where tb: "try_body P pc instrs w1 (tr @ [EvPreOp pc]) = (r1, w2, tr2)"
    by (cases "try_body P pc instrs w1 (tr @ [EvPreOp pc])")
  have r1: "r1 = Inr nxt \<and> w2 = w'"
    using assms pre r0 blk tb
    by (cases r1) (simp_all add: run_block_def Let_def split: prod.splits sum.splits)
  obtain r2 w3 tr3 where ex: "exec_instrs pc instrs 0 w1 (tr @ [EvPreOp pc]) = (r2, w3, tr3)"
    by (cases "exec_instrs pc instrs 0 w1 (tr @ [EvPreOp pc])")
  from tb r1 ex obtain u2 where r2: "r2 = Inr u2"
    by (cases r2) (simp_all add: try_body_def)
  have po: "post_op P pc SUCCESS None w3 = (Inr nxt, w')"
    using tb ex r2 r1 by (simp add: try_body_def split: prod.splits sum.splits)
  have sq: "spec_seq instrs w1 w3"
    using ex r2 seq_of_exec_instrs [of pc instrs 0 w1 "tr @ [EvPreOp pc]" u2 w3 tr3] by simp
  show ?thesis using turn [of P pc w u0 w1 instrs w3 nxt w'] pre r0 blk sq po by simp
qed

lemma run_loop_of_chain:
  "spec_chain P pc w ps w' \<Longrightarrow> length ps < fuel \<Longrightarrow>
   run_loop fuel P (pre @ [pc]) (length pre) w tr =
     Some (Inr (), w', tr @ concat (map (spec_block_events P) ps), pre @ ps)"
proof (induction P pc w ps w' arbitrary: fuel pre tr rule: spec_chain.induct)
  case (chain_last P pc w w')
  then obtain f where fuel: "fuel = Suc (Suc f)"
    by (cases fuel) (simp, rename_tac f1, case_tac f1, simp_all)
  have rb: "run_block P pc w tr = (Inr None, w', tr @ spec_block_events P pc)"
    using chain_last.hyps by (rule run_block_of_turn)
  show ?case using fuel rb by simp
next
  case (chain_next P pc w n w1 ps w')
  then obtain f where fuel: "fuel = Suc f" and f: "length ps < f"
    by (cases fuel) simp_all
  have rb: "run_block P pc w tr = (Inr (Some n), w1, tr @ spec_block_events P pc)"
    using chain_next.hyps(1) by (rule run_block_of_turn)
  have ih: "run_loop f P ((pre @ [pc]) @ [n]) (length (pre @ [pc])) w1 (tr @ spec_block_events P pc) =
     Some (Inr (), w', (tr @ spec_block_events P pc) @ concat (map (spec_block_events P) ps),
           (pre @ [pc]) @ ps)"
    using f by (rule chain_next.IH)
  show ?case using fuel rb ih by simp
qed

lemma chain_of_run_loop:
  "run_loop fuel P (pre @ [pc]) (length pre) w tr = Some (Inr u, w', tr', pcs') \<Longrightarrow>
   \<exists>ps. pcs' = pre @ ps \<and> spec_chain P pc w ps w'"
proof (induction fuel arbitrary: pre pc w tr)
  case 0
  then show ?case by simp
next
  case (Suc fuel)
  obtain r w1 tr1 where rb: "run_block P pc w tr = (r, w1, tr1)"
    by (cases "run_block P pc w tr")
  from Suc.prems rb obtain nxt where r: "r = Inr nxt"
    by (cases r) simp_all
  have tn: "spec_turn P pc w nxt w1"
    using rb r turn_of_run_block [of P pc w tr nxt w1 tr1] by simp
  show ?case
  proof (cases nxt)
    case None
    have "run_loop fuel P (pre @ [pc]) (Suc (length pre)) w1 tr1 = Some (Inr u, w', tr', pcs')"
      using Suc.prems rb r None by simp
    then have "pcs' = pre @ [pc] \<and> w' = w1"
      by (cases fuel) simp_all
    then show ?thesis using tn None chain_last [of P pc w w1] by auto
  next
    case (Some n)
    have "run_loop fuel P ((pre @ [pc]) @ [n]) (length (pre @ [pc])) w1 tr1 = Some (Inr u, w', tr', pcs')"
      using Suc.prems rb r Some by simp
    then obtain ps where ps: "pcs' = (pre @ [pc]) @ ps" and ch: "spec_chain P n w1 ps w'"
      using Suc.IH by blast
    have "spec_chain P pc w (pc # ps) w'"
      using tn Some ch chain_next [of P pc w n w1 ps w'] by simp
    then show ?thesis using ps by auto
  qed
qed


lemma chain_prog_chain: "spec_chain chain_prog 1 0 [1, 5] 2"
proof -
  have s1: "spec_seq [ok_instr, ok_instr] (0::nat) 0"
    using seq_cons [of ok_instr 0 "()" 0 "[ok_instr]" 0] seq_cons [of ok_instr 0 "()" 0 "[]" 0] seq_nil [of "0::nat"]
    by (simp add: ok_instr_def)
  have s5: "spec_seq [ok_instr] (1::nat) 1"
    using seq_cons [of ok_instr 1 "()" 1 "[]" 1] seq_nil [of "1::nat"]
    by (simp add: ok_instr_def)
  have t1: "spec_turn chain_prog 1 0 (Some 5) 1"
    using turn [of chain_prog 1 0 "()" 0 "[ok_instr, ok_instr]" 0 "Some 5" 1] s1
    by (simp add: chain_prog_def)
  have t5: "spec_turn chain_prog 5 1 None 2"
    using turn [of chain_prog 5 1 "()" 1 "[ok_instr]" 1 None 2] s5
    by (simp add: chain_prog_def)
  show ?thesis
    using chain_next [of chain_prog 1 0 5 1 "[5]" 2] chain_last [of chain_prog 5 1 2] t1 t5
    by simp
qed


text \<open>
  Claim C6.  \<^verbatim>\<open>run\<close> is the chain of turns the specification describes, no more and no
  less.  A turn of the loop succeeds exactly when \<^verbatim>\<open>pre_op\<close> returns, the block exists,
  its instructions return one after the other, each on the world its predecessor left,
  and \<^verbatim>\<open>post_op(pc, SUCCESS)\<close> returns on the world the last instruction left; the result
  of that call is the turn's next counter, and the turn's calls are \<^verbatim>\<open>pre_op\<close>, the
  instructions in order, \<^verbatim>\<open>post_op\<close>.  Whenever the counters from the seed on form a
  finite chain, \<^verbatim>\<open>run\<close> with more fuel than the chain is long returns normally, with the
  world the last turn left, the calls of all the turns in order, and the chain as its
  final worklist; and a \<^verbatim>\<open>run\<close> that returns normally has served such a chain.  A
  successful turn appends its non-null result to the worklist and moves on to the next
  position.  For the program whose \<^verbatim>\<open>post_op\<close> returns 5 and then \<^verbatim>\<open>None\<close>, \<^verbatim>\<open>run(1)\<close>
  with fuel 3 or more returns after executing block 1 and block 5.
\<close>

theorem run_executes_chain:
  "((run_block P pc w tr = (Inr nxt, w1, tr1))
      = (spec_turn P pc w nxt w1 \<and> tr1 = tr @ spec_block_events P pc))
   \<and> (spec_chain P pc w ps w' \<and> length ps < fuel
      \<longrightarrow> run fuel P pc w = Some (Inr (), w', concat (map (spec_block_events P) ps), ps))
   \<and> (run fuel P pc w = Some (Inr u, w', tr', pcs')
      \<longrightarrow> spec_chain P pc w pcs' w' \<and> tr' = concat (map (spec_block_events P) pcs'))
   \<and> (run_loop fuel P pcs i w tr = Some (Inr u, w', tr', pcs') \<and> i \<le> length pcs
      \<longrightarrow> take (length pcs) pcs' = pcs
          \<and> tr' = tr @ concat (map (spec_block_events P) (drop i pcs')))
   \<and> (i < length pcs \<and> run_block P (pcs ! i) w tr = (Inr nxt, w1, tr1)
      \<longrightarrow> run_loop (Suc fuel) P pcs i w tr =
              run_loop fuel P (case nxt of None \<Rightarrow> pcs | Some n \<Rightarrow> pcs @ [n]) (Suc i) w1 tr1)
   \<and> run (3 + n) chain_prog 1 0 =
       Some (Inr (), 2, [EvPreOp 1, EvInstr 1 0, EvInstr 1 1, EvPostOp 1 SUCCESS None,
                         EvPreOp 5, EvInstr 5 0, EvPostOp 5 SUCCESS None], [1, 5])"
proof -
  have a: "(run_block P pc w tr = (Inr nxt, w1, tr1))
      = (spec_turn P pc w nxt w1 \<and> tr1 = tr @ spec_block_events P pc)"
  proof
    assume rb: "run_block P pc w tr = (Inr nxt, w1, tr1)"
    show "spec_turn P pc w nxt w1 \<and> tr1 = tr @ spec_block_events P pc"
      using rb turn_of_run_block [of P pc w tr nxt w1 tr1] run_block_ok [of P pc w tr nxt w1 tr1]
      by simp
  next
    assume "spec_turn P pc w nxt w1 \<and> tr1 = tr @ spec_block_events P pc"
    then show "run_block P pc w tr = (Inr nxt, w1, tr1)"
      using run_block_of_turn [of P pc w nxt w1 tr] by simp
  qed
  have b: "spec_chain P pc w ps w' \<and> length ps < fuel
      \<longrightarrow> run fuel P pc w = Some (Inr (), w', concat (map (spec_block_events P) ps), ps)"
  proof
    assume h: "spec_chain P pc w ps w' \<and> length ps < fuel"
    have "run_loop fuel P ([] @ [pc]) (length ([] :: int list)) w [] =
        Some (Inr (), w', [] @ concat (map (spec_block_events P) ps), [] @ ps)"
      using h by (intro run_loop_of_chain) simp_all
    then show "run fuel P pc w = Some (Inr (), w', concat (map (spec_block_events P) ps), ps)"
      by (simp add: run_def)
  qed
  have c: "run fuel P pc w = Some (Inr u, w', tr', pcs')
      \<longrightarrow> spec_chain P pc w pcs' w' \<and> tr' = concat (map (spec_block_events P) pcs')"
  proof
    assume h: "run fuel P pc w = Some (Inr u, w', tr', pcs')"
    then have rl: "run_loop fuel P ([] @ [pc]) (length ([] :: int list)) w [] = Some (Inr u, w', tr', pcs')"
      by (simp add: run_def)
    obtain ps where ps: "pcs' = [] @ ps" and ch: "spec_chain P pc w ps w'"
      using chain_of_run_loop [OF rl] by blast
    have rl2: "run_loop fuel P [pc] 0 w [] = Some (Inr u, w', tr', pcs')"
      using h by (simp add: run_def)
    have "tr' = [] @ concat (map (spec_block_events P) (drop 0 pcs'))"
      using run_loop_chain [OF rl2] by simp
    then show "spec_chain P pc w pcs' w' \<and> tr' = concat (map (spec_block_events P) pcs')"
      using ps ch by simp
  qed
  have d: "run_loop fuel P pcs i w tr = Some (Inr u, w', tr', pcs') \<and> i \<le> length pcs
      \<longrightarrow> take (length pcs) pcs' = pcs
          \<and> tr' = tr @ concat (map (spec_block_events P) (drop i pcs'))"
    using run_loop_chain [of fuel P pcs i w tr u w' tr' pcs'] by simp
  have e: "i < length pcs \<and> run_block P (pcs ! i) w tr = (Inr nxt, w1, tr1)
      \<longrightarrow> run_loop (Suc fuel) P pcs i w tr =
              run_loop fuel P (case nxt of None \<Rightarrow> pcs | Some n \<Rightarrow> pcs @ [n]) (Suc i) w1 tr1"
    by simp
  show ?thesis using a b c d e chain_run [of n] by (simp only: simp_thms)
qed

lemma chain_spec_events:
  "spec_block_events chain_prog 1 = [EvPreOp 1, EvInstr 1 0, EvInstr 1 1, EvPostOp 1 SUCCESS None]"
  "spec_block_events chain_prog 5 = [EvPreOp 5, EvInstr 5 0, EvPostOp 5 SUCCESS None]"
  by (simp_all add: spec_block_events_def chain_prog_def upt_rec)

theorem run_executes_chain_witness:
  "spec_chain chain_prog 1 0 [1, 5] 2 \<and> length [1, 5 :: int] < 3
   \<and> run 3 chain_prog 1 0 =
       Some (Inr (), 2, [EvPreOp 1, EvInstr 1 0, EvInstr 1 1, EvPostOp 1 SUCCESS None,
                         EvPreOp 5, EvInstr 5 0, EvPostOp 5 SUCCESS None], [1, 5])
   \<and> [EvPreOp 1, EvInstr 1 0, EvInstr 1 1, EvPostOp 1 SUCCESS None,
       EvPreOp 5, EvInstr 5 0, EvPostOp 5 SUCCESS None]
       = concat (map (spec_block_events chain_prog) [1, 5])
   \<and> run_loop 3 chain_prog [1] 0 0 [] =
       Some (Inr (), 2, [EvPreOp 1, EvInstr 1 0, EvInstr 1 1, EvPostOp 1 SUCCESS None,
                         EvPreOp 5, EvInstr 5 0, EvPostOp 5 SUCCESS None], [1, 5])
   \<and> (0::nat) \<le> length [1::int]
   \<and> take (length [1::int]) [1, 5 :: int] = [1]
   \<and> (0::nat) < length [1::int]
   \<and> run_block chain_prog ([1] ! 0) 0 [] =
       (Inr (Some 5), 1, [EvPreOp 1, EvInstr 1 0, EvInstr 1 1, EvPostOp 1 SUCCESS None])
   \<and> run_loop (Suc 2) chain_prog [1] 0 0 [] =
       run_loop 2 chain_prog [1, 5] 1 1 [EvPreOp 1, EvInstr 1 0, EvInstr 1 1, EvPostOp 1 SUCCESS None]"
proof -
  let ?TR = "[EvPreOp 1, EvInstr 1 0, EvInstr 1 1, EvPostOp 1 SUCCESS None,
              EvPreOp 5, EvInstr 5 0, EvPostOp 5 SUCCESS None]"
  let ?TR1 = "[EvPreOp 1, EvInstr 1 0, EvInstr 1 1, EvPostOp 1 SUCCESS None]"
  have h1: "spec_chain chain_prog 1 0 [1, 5] 2 \<and> length [1, 5 :: int] < 3"
    using chain_prog_chain by simp
  have ev: "concat (map (spec_block_events chain_prog) [1, 5]) = ?TR"
    by (simp add: chain_spec_events)
  have r3: "run 3 chain_prog 1 0 = Some (Inr (), 2, ?TR, [1, 5])"
    using h1 ev
      run_executes_chain [where P = chain_prog and pc = 1 and w = 0 and ps = "[1, 5]"
        and w' = 2 and fuel = 3]
    by simp
  have rl3: "run_loop 3 chain_prog [1] 0 0 [] = Some (Inr (), 2, ?TR, [1, 5])"
    using r3 by (simp add: run_def)
  have c: "?TR = concat (map (spec_block_events chain_prog) [1, 5])"
    using r3
      run_executes_chain [where P = chain_prog and pc = 1 and w = 0 and fuel = 3
        and u = "()" and w' = 2 and tr' = ?TR and pcs' = "[1, 5]"]
    by simp
  have d: "take (length [1::int]) [1, 5 :: int] = [1]"
    using rl3
      run_executes_chain [where P = chain_prog and fuel = 3 and pcs = "[1]" and i = 0
        and w = 0 and tr = "[]" and u = "()" and w' = 2 and tr' = ?TR and pcs' = "[1, 5]"]
    by simp
  have rb: "run_block chain_prog ([1] ! 0) 0 [] = (Inr (Some 5), 1, ?TR1)"
    using chain_block_1 by simp
  have e: "run_loop (Suc 2) chain_prog [1] 0 0 [] = run_loop 2 chain_prog [1, 5] 1 1 ?TR1"
    using rb
      run_executes_chain [where P = chain_prog and fuel = 2 and pcs = "[1]" and i = 0
        and w = 0 and tr = "[]" and nxt = "Some 5" and ?w1.0 = 1 and ?tr1.0 = ?TR1]
    by simp
  show ?thesis using h1 r3 c rl3 d rb e by simp
qed





lemma fail_run:
  "run 2 fail_prog 1 0 =
     Some (Inl (Exception ''boom''), 2,
           [EvPreOp 1, EvInstr 1 0, EvInstr 1 1, EvPostOp 1 SUCCESS None,
            EvPreOp 5, EvInstr 5 0, EvInstr 5 1,
            EvPostOp 5 EXCEPTION (Some ''Traceback (most recent call last): Exception: boom'')],
           [1, 5])"
  by (simp add: run_def numeral_2_eq_2 run_block_def try_body_def fail_prog_def chain_prog_def
      ok_instr_def boom_instr_def format_exc_def Let_def)


section \<open>The poll cycle\<close>

lemma receive_empty:
  "visible q u = [] \<Longrightarrow>
   receive_message u (Suc 0) q = (None, q\<lparr> recv_log := recv_log q @ [(u, 1)] \<rparr>)"
  by (simp add: receive_message_def Let_def)

lemma receive_head:
  "visible q u = msg # rest \<Longrightarrow>
   receive_message u (Suc 0) q =
     (Some [msg], q\<lparr> recv_log := recv_log q @ [(u, 1)], visible := (visible q)(u := rest),
                    inflight := inflight q @ [(u, msg)] \<rparr>)"
  by (simp add: receive_message_def Let_def)

lemma poll_queues_hit:
  assumes "\<forall>x\<in>set pre. visible q x = []" and "visible q u = msg # rest"
  shows "poll_queues (pre @ u # post) m0 u0 q =
     (Some (Some [msg]), Some u,
      q\<lparr> recv_log := recv_log q @ map (\<lambda>x. (x, 1)) (pre @ [u]),
         visible := (visible q)(u := rest), inflight := inflight q @ [(u, msg)] \<rparr>)"
  using assms
proof (induction pre arbitrary: q m0 u0)
  case Nil
  show ?case using receive_head [OF Nil.prems(2)] by (simp add: fun_upd_def)
next
  case (Cons x pre)
  let ?q1 = "q\<lparr> recv_log := recv_log q @ [(x, 1)] \<rparr>"
  have e: "visible q x = []" using Cons.prems(1) by simp
  have a: "\<forall>y\<in>set pre. visible ?q1 y = []" using Cons.prems(1) by simp
  have b: "visible ?q1 u = msg # rest" using Cons.prems(2) by simp
  have "poll_queues ((x # pre) @ u # post) m0 u0 q = poll_queues (pre @ u # post) (Some None) (Some x) ?q1"
    using e by (simp add: receive_empty)
  also have "\<dots> = (Some (Some [msg]), Some u,
      ?q1\<lparr> recv_log := recv_log ?q1 @ map (\<lambda>x. (x, 1)) (pre @ [u]),
         visible := (visible ?q1)(u := rest), inflight := inflight ?q1 @ [(u, msg)] \<rparr>)"
    using Cons.IH [OF a b] .
  finally show ?case by (simp add: fun_upd_def)
qed

lemma poll_queues_none:
  assumes "\<forall>x\<in>set us. visible q x = []" and "us \<noteq> []"
  shows "poll_queues us m0 u0 q =
     (Some None, Some (last us), q\<lparr> recv_log := recv_log q @ map (\<lambda>x. (x, 1)) us \<rparr>)"
  using assms
proof (induction us arbitrary: q m0 u0)
  case Nil
  then show ?case by simp
next
  case (Cons x us)
  let ?q1 = "q\<lparr> recv_log := recv_log q @ [(x, 1)] \<rparr>"
  have e: "visible q x = []" using Cons.prems(1) by simp
  show ?case
  proof (cases "us = []")
    case True
    then show ?thesis using e by (simp add: receive_empty)
  next
    case False
    have a: "\<forall>y\<in>set us. visible ?q1 y = []" using Cons.prems(1) by simp
    have "poll_queues (x # us) m0 u0 q = poll_queues us (Some None) (Some x) ?q1"
      using e by (simp add: receive_empty)
    also have "\<dots> = (Some None, Some (last us), ?q1\<lparr> recv_log := recv_log ?q1 @ map (\<lambda>x. (x, 1)) us \<rparr>)"
      using Cons.IH [OF a False] .
    finally show ?thesis using False by simp
  qed
qed

text \<open>
  Claim C5.  When \<open>u\<close> is the queue of highest priority that has a visible message
  (every queue after it in \<^verbatim>\<open>queue_urls\<close> is empty), the cycle selects the first message
  of \<open>u\<close> and leaves \<^verbatim>\<open>queue_url\<close> bound to \<open>u\<close>.  It has asked each queue above \<open>u\<close>
  and then \<open>u\<close> once, for at most one message each, and no queue below \<open>u\<close>.
\<close>

theorem poll_cycle_priority:
  assumes "queue_urls P = lower @ u # higher"
    and "\<forall>x\<in>set higher. visible q x = []"
    and "visible q u = msg # rest"
  shows "poll_cycle P m0 u0 q =
     (Selected u msg, Some (Some [msg]), Some u,
      q\<lparr> recv_log := recv_log q @ map (\<lambda>x. (x, 1)) (rev higher @ [u]),
         visible := (visible q)(u := rest), inflight := inflight q @ [(u, msg)] \<rparr>)"
proof -
  have r: "rev (queue_urls P) = rev higher @ u # rev lower" using assms(1) by simp
  have a: "\<forall>x\<in>set (rev higher). visible q x = []" using assms(2) by simp
  show ?thesis
    unfolding poll_cycle_def r poll_queues_hit [OF a assms(3)]
    by (simp add: py_getitem_def fun_upd_def)
qed

theorem poll_cycle_priority_witness:
  "queue_urls chain_prog = [''q0''] @ ''q1'' # [''q2'']
   \<and> visible demo_queues ''q2'' = []
   \<and> visible demo_queues ''q1'' = ''20'' # [''21'']
   \<and> fst (poll_cycle chain_prog None None demo_queues) = Selected ''q1'' ''20''
   \<and> recv_log (snd (snd (snd (poll_cycle chain_prog None None demo_queues))))
       = [(''q2'', 1), (''q1'', 1)]"
proof -
  have h1: "queue_urls chain_prog = [''q0''] @ ''q1'' # [''q2'']" by (simp add: chain_prog_def)
  have e: "visible demo_queues ''q2'' = []" by (simp add: demo_queues_def)
  have h2: "\<forall>x\<in>set [''q2'']. visible demo_queues x = []" using e by simp
  have h3: "visible demo_queues ''q1'' = ''20'' # [''21'']" by (simp add: demo_queues_def)
  have l: "recv_log demo_queues = []" by (simp add: demo_queues_def)
  have c1: "fst (poll_cycle chain_prog None None demo_queues) = Selected ''q1'' ''20''"
    using poll_cycle_priority [OF h1 h2 h3, of None None] by simp
  have c2: "recv_log (snd (snd (snd (poll_cycle chain_prog None None demo_queues))))
       = [(''q2'', 1), (''q1'', 1)]"
    using poll_cycle_priority [OF h1 h2 h3, of None None] l by simp
  show ?thesis using h1 e h3 c1 c2 by blast
qed

lemma poll_cycle_idle:
  assumes "\<forall>x\<in>set (queue_urls P). visible q x = []" and "queue_urls P \<noteq> []"
  shows "poll_cycle P m0 u0 q =
     (NoMessage, Some None, Some (hd (queue_urls P)),
      q\<lparr> recv_log := recv_log q @ map (\<lambda>x. (x, 1)) (rev (queue_urls P)) \<rparr>)"
proof -
  have a: "\<forall>x\<in>set (rev (queue_urls P)). visible q x = []" using assms(1) by simp
  have b: "rev (queue_urls P) \<noteq> []" using assms(2) by simp
  show ?thesis
    unfolding poll_cycle_def poll_queues_none [OF a b]
    using assms(2) by (simp add: last_rev)
qed


section \<open>Views\<close>

lemma submatrix_demo: "submatrix demo_vec [BSSeq [2, 5]] = Inr demo_view"
  by (simp add: submatrix_def BigMatrixView_def demo_vec_def demo_view_def py_getitem_def
      ceil_div_def enumerate_eq_zip Let_def)

lemma range_20_2: "py_range0 20 2 = Inr [0, 2, 4, 6, 8, 10, 12, 14, 16, 18]"
  by (simp add: py_range0_def upt_rec)

lemma blocks_of_axis_demo:
  "blocks_of_axis 20 2 = Inr [(0, 2), (2, 4), (4, 6), (6, 8), (8, 10), (10, 12), (12, 14),
                              (14, 16), (16, 18), (18, 20)]"
  by (simp add: blocks_of_axis_def range_20_2 py_getitem_def Let_def)

lemma all_blocks_demo:
  "all_blocks demo_vec = Inr [[(0, 2), (2, 4), (4, 6), (6, 8), (8, 10), (10, 12), (12, 14),
                              (14, 16), (16, 18), (18, 20)]]"
  by (simp add: all_blocks_def demo_vec_def py_getitem_def blocks_of_axis_demo)

lemma idxs_demo: "idxs_loop demo_vec [0] = Inr [[0, 1, 2, 3, 4, 5, 6, 7, 8, 9]]"
  by (simp add: blocks_axis_def all_blocks_demo py_getitem_def upt_rec)

lemma shape_demo_vec: "shape demo_vec = [20]" "bucket demo_vec = ''bkt''"
  by (simp_all add: demo_vec_def)

lemma upt_shape_demo: "[0 ..< length (shape demo_vec)] = [0]"
  by (simp add: shape_demo_vec)

lemma block_idxs_demo:
  "block_idxs demo_vec = Inr [[0], [1], [2], [3], [4], [5], [6], [7], [8], [9]]"
  by (simp add: block_idxs_def block_idxs_all_def upt_shape_demo idxs_demo del: idxs_loop.simps)

lemma block_idxs_axis_demo:
  "block_idxs_axis demo_vec 0 = Inr [0, 1, 2, 3, 4, 5, 6, 7, 8, 9]"
  by (simp add: block_idxs_axis_def upt_shape_demo idxs_demo py_getitem_def del: idxs_loop.simps)

lemma view_fields:
  "parent demo_view = demo_vec" "transposed demo_view = False"
  "parent_slices demo_view = [\<lparr> v_start = 2, v_stop = 5, v_step = 1 \<rparr>]"
  "view_shape demo_view = [6]" "view_shard_sizes demo_view = [2]"
  by (simp_all add: demo_view_def)

lemma view_block_idxs_raises: "view_block_idxs demo_view = Inl TypeError"
  by (simp add: view_block_idxs_def view_fields block_idxs_demo py_call_list_def)

lemma view_block_idxs_axis_demo: "view_block_idxs_axis demo_view 0 = Inr [0, 1, 2]"
  by (simp add: view_block_idxs_axis_def view_to_parent_axis_def view_fields block_idxs_axis_demo
      is_valid_parent_block_idx_axis_def parent_to_view_block_idx_axis_def py_getitem_def)

lemma view_block_idxs_all_demo: "view_block_idxs_all demo_view = Inr [[0], [1], [2]]"
  by (simp add: view_block_idxs_all_def view_fields block_idxs_demo block_idxs_def [symmetric]
      is_valid_parent_block_idx_def parent_to_view_block_idx_def)

lemma to_parent_demo:
  "view_to_parent_block_idx demo_view [e] =
     (if e + 2 < 0 then Inl NotImplementedError else if e + 2 \<ge> 5 then Inl IndexError
      else Inr [e + 2])"
  by (simp add: view_to_parent_block_idx_def view_fields Let_def)

lemma view_get_block_demo: "view_get_block demo_view [0] s = get_block_async demo_vec [2] s"
  by (simp add: view_get_block_def to_parent_demo view_fields split: prod.splits sum.splits)

lemma to_parent_loop_one:
  "to_parent_loop [(sl, e)] [] =
     (if e * v_step sl + v_start sl < 0 then Inl NotImplementedError
      else if e * v_step sl + v_start sl \<ge> v_stop sl then Inl IndexError
      else Inr [e * v_step sl + v_start sl])"
  by (simp add: Let_def)


text \<open>
  Claim C9 (a defect of the code).  \<^verbatim>\<open>submatrix((2, 5))\<close> over the axis of block count
  10 builds the view with the slice (2, 5, 1).  The property \<^verbatim>\<open>block_idxs\<close> of that view
  does not return three indices: it raises \<^verbatim>\<open>TypeError\<close>, because it calls the list that
  the parent's property \<^verbatim>\<open>block_idxs\<close> evaluates to.  The method \<^verbatim>\<open>_block_idxs\<close> beside it
  does return the indices 0, 1, 2.  The rest of the claim holds: \<^verbatim>\<open>get_block(0)\<close> on the
  view is \<^verbatim>\<open>get_block(2)\<close> on the parent, a view element is translated to
  \<open>view_elt * step + start\<close>, and a translated index that reaches \<open>stop\<close> raises
  \<^verbatim>\<open>IndexError\<close>.
\<close>

theorem view_block_idxs_type_error:
  "submatrix demo_vec [BSSeq [2, 5]] = Inr demo_view
   \<and> block_idxs demo_vec = Inr [[0], [1], [2], [3], [4], [5], [6], [7], [8], [9]]
   \<and> view_block_idxs demo_view = Inl TypeError
   \<and> view_block_idxs_axis demo_view 0 = Inr [0, 1, 2]
   \<and> view_block_idxs_all demo_view = Inr [[0], [1], [2]]
   \<and> view_get_block demo_view [0] s = get_block_async demo_vec [2] s
   \<and> view_to_parent_block_idx demo_view [3] = Inl IndexError
   \<and> to_parent_loop [(sl, e)] [] =
       (if e * v_step sl + v_start sl < 0 then Inl NotImplementedError
        else if e * v_step sl + v_start sl \<ge> v_stop sl then Inl IndexError
        else Inr [e * v_step sl + v_start sl])"
  using submatrix_demo block_idxs_demo view_block_idxs_raises view_block_idxs_axis_demo
    view_block_idxs_all_demo view_get_block_demo [of s] to_parent_demo [of 3]
    to_parent_loop_one [of sl e]
  by simp

end
